theory Spec2Isabelle
  imports Main "HOL-Library.Word"
begin

section \<open>Byte strings\<close>

text \<open>
  Go's \<^verbatim>\<open>[]byte\<close> and \<^verbatim>\<open>string\<close> are both modelled as \<^typ>\<open>string\<close>
  (a list of 8-bit characters). The functions of this section are the pieces of
  the Go packages \<^verbatim>\<open>bytes\<close> and \<^verbatim>\<open>strings\<close> that \<^verbatim>\<open>qcfg.go\<close> calls.
\<close>

abbreviation NL :: char where "NL \<equiv> CHR 0x0A"
abbreviation TAB :: char where "TAB \<equiv> CHR 0x09"

text \<open>\<^verbatim>\<open>bytes.Index(s, sep)\<close>: the index of the first instance of \<open>sep\<close> in \<open>s\<close>, or -1.\<close>

fun Index :: "string \<Rightarrow> string \<Rightarrow> int" where
  "Index [] sep = (if sep = [] then 0 else -1)"
| "Index (c # s) sep =
     (if take (length sep) (c # s) = sep then 0
      else (let i = Index s sep in if i < 0 then -1 else i + 1))"

text \<open>\<^verbatim>\<open>bytes.TrimLeft\<close> and \<^verbatim>\<open>bytes.TrimRight\<close> with a cutset of one-byte characters.\<close>

definition TrimLeft :: "string \<Rightarrow> string \<Rightarrow> string" where
  "TrimLeft s cutset = dropWhile (\<lambda>c. c \<in> set cutset) s"

definition TrimRight :: "string \<Rightarrow> string \<Rightarrow> string" where
  "TrimRight s cutset = rev (dropWhile (\<lambda>c. c \<in> set cutset) (rev s))"

text \<open>
  \<^verbatim>\<open>bytes.TrimSpace\<close>, for the ASCII white space characters
  (tab, newline, vertical tab, form feed, carriage return, space).
\<close>

definition asciiSpace :: string where
  "asciiSpace = [TAB, NL, CHR 0x0B, CHR 0x0C, CHR 0x0D, CHR '' '']"

definition TrimSpace :: "string \<Rightarrow> string" where
  "TrimSpace s = TrimRight (TrimLeft s asciiSpace) asciiSpace"

text \<open>\<^verbatim>\<open>bytes.ToLower\<close>, on ASCII letters.\<close>

definition toLowerChar :: "char \<Rightarrow> char" where
  "toLowerChar c =
     (let n = (of_char c :: nat) in if 65 \<le> n \<and> n \<le> 90 then char_of (n + 32) else c)"

definition ToLower :: "string \<Rightarrow> string" where
  "ToLower s = map toLowerChar s"

text \<open>
  \<^verbatim>\<open>bytes.SplitN(s, sep, 2)\<close> for a one-byte separator: the text before the first
  separator and the text after it, or the whole of \<open>s\<close> when there is none.
\<close>

definition SplitN2 :: "string \<Rightarrow> char \<Rightarrow> string list" where
  "SplitN2 s sep =
     (let i = Index s [sep] in if i < 0 then [s] else [take (nat i) s, drop (nat i + 1) s])"

text \<open>
  \<^verbatim>\<open>bytes.Split(s, sep)\<close> and \<^verbatim>\<open>strings.Split(s, sep)\<close> for a one-byte separator:
  all the pieces between separators; always at least one piece.
\<close>

fun Split_from :: "string \<Rightarrow> char \<Rightarrow> string \<Rightarrow> string list" where
  "Split_from acc sep [] = [rev acc]"
| "Split_from acc sep (c # s) =
     (if c = sep then rev acc # Split_from [] sep s else Split_from (c # acc) sep s)"

definition strings_Split :: "string \<Rightarrow> char \<Rightarrow> string list" where
  "strings_Split s sep = Split_from [] sep s"

text \<open>
  \<^verbatim>\<open>(*bufio.Reader).ReadBytes('\n')\<close>. The reader is the text not yet consumed. The
  result is the bytes up to and including the first newline, or, when there is no
  newline left, all the remaining bytes together with the error flag (end of file).
\<close>

definition ReadBytes :: "string \<Rightarrow> string \<times> bool \<times> string" where
  "ReadBytes rdr =
     (if NL \<in> set rdr
      then (takeWhile (\<lambda>c. c \<noteq> NL) rdr @ [NL], False, tl (dropWhile (\<lambda>c. c \<noteq> NL) rdr))
      else (rdr, True, []))"

section \<open>Data model\<close>

record cfgRow =
  row_name :: string
  cols :: "string \<Rightarrow> string option"

datatype CfgBlock = CfgBlock
  (name: string)
  (fname: string)
  (rows: "string \<Rightarrow> cfgRow option")
  (tbls: "string \<Rightarrow> CfgBlock option")

text \<open>
  The outcome of a call that may panic. \<open>OutOfFuel\<close> is the model's own value for a
  load that was cut off by its recursion bound (an include cycle never returns).
\<close>

datatype 'a result = OutOfFuel | Panic string | Ok 'a

text \<open>
  The operating system as the package sees it: the files that can be opened, with
  their content, the home directory of the current user, and, for a path that cannot
  be created or truncated for writing, the text of the error. No file has the empty
  path.
\<close>

record os =
  files :: "string \<Rightarrow> string option"
  home_dir :: string
  create_error :: "string \<Rightarrow> string option"

definition os_Open :: "os \<Rightarrow> string \<Rightarrow> string option" where
  "os_Open sys path = (if path = [] then None else files sys path)"

definition expandUser :: "os \<Rightarrow> string \<Rightarrow> string" where
  "expandUser sys fnm =
     (if length fnm < 2 then fnm
      else if take 2 fnm \<noteq> ''~/'' then fnm
      else home_dir sys @ ''/'' @ drop 2 fnm)"

section \<open>The loader\<close>

definition blanks :: string where
  "blanks = [CHR '' '', TAB]"

definition cleanLine :: "string \<Rightarrow> string" where
  "cleanLine line =
     (let nn = Index line ''#'';
          l1 = (if nn \<ge> 0 then take (nat nn) line else line)
      in TrimRight (TrimLeft l1 blanks) blanks)"

text \<open>
  \<open>getFilename\<close> indexes and slices the text after \<^verbatim>\<open>%include\<close>; Go panics when
  the index or the slice bounds are out of range.
\<close>

definition getFilename :: "string \<Rightarrow> string result" where
  "getFilename line =
     (let parts = SplitN2 line (CHR '' '') in
      if length parts > 1 then
        (if ''%include'' = ToLower (parts ! 0) then
           (let p1 = cleanLine (parts ! 1) in
            if p1 = [] then Panic ''index out of range''
            else if p1 ! 0 = CHR 0x22 then
              (if length p1 - 1 < 1 then Panic ''slice bounds out of range''
               else Ok (take (length p1 - 2) (drop 1 p1)))
            else Ok p1)
         else Ok [])
      else Ok [])"

definition lineIsInclude :: "string \<Rightarrow> bool" where
  "lineIsInclude line \<longleftrightarrow> length line > 8 \<and> ''%include'' = take 8 line"

definition lineIsBlockEnd :: "string \<Rightarrow> bool" where
  "lineIsBlockEnd line \<longleftrightarrow> length line > 0 \<and> line ! 0 = CHR ''}''"

definition lineIsBlockNew :: "string \<Rightarrow> bool" where
  "lineIsBlockNew line =
     (let parts = SplitN2 line (CHR '' '') in
      if length parts > 1 then ''%block'' = ToLower (parts ! 0) else False)"

definition getBlockname :: "string \<Rightarrow> string" where
  "getBlockname line =
     (let parts = SplitN2 line (CHR '' '') in
      if length parts > 1 \<and> ''%block'' = ToLower (parts ! 0) then cleanLine (parts ! 1)
      else [])"

text \<open>
  The column loop of \<open>loadRow\<close>: one semicolon-separated piece at a time, the pairs
  with an empty key or without \<^verbatim>\<open>=\<close> skipped.
\<close>

fun loadCols :: "(string \<Rightarrow> string option) \<Rightarrow> string list \<Rightarrow> (string \<Rightarrow> string option)" where
  "loadCols m [] = m"
| "loadCols m (col # rest) =
     (let kvarr = SplitN2 col (CHR ''='');
          k = cleanLine (kvarr ! 0)
      in if length k < 1 then loadCols m rest
         else if length kvarr < 2 then loadCols m rest
         else loadCols (m(k \<mapsto> cleanLine (kvarr ! 1))) rest)"

text \<open>
  The second half of \<open>loadRow\<close>, from the lookup of the row on: with the row name,
  the column text and the \<open>add\<close> flag decided, the row is looked up, replaced by a
  fresh one unless it exists and \<open>add\<close> is set, and given the parsed columns.
\<close>

definition storeRow :: "CfgBlock \<Rightarrow> string \<Rightarrow> string \<Rightarrow> bool \<Rightarrow> CfgBlock" where
  "storeRow cfg rowName rowData add =
     (let row = (case rows cfg rowName of
                   Some r \<Rightarrow> if \<not> add then \<lparr>row_name = rowName, cols = Map.empty\<rparr> else r
                 | None \<Rightarrow> \<lparr>row_name = rowName, cols = Map.empty\<rparr>);
          row' = row\<lparr>cols := loadCols (cols row) (strings_Split rowData (CHR '';''))\<rparr>
      in CfgBlock (name cfg) (fname cfg) ((rows cfg)(rowName \<mapsto> row')) (tbls cfg))"

text \<open>
  \<open>loadRow\<close> returns the block with the row stored and the row name it settled on
  (the empty name stands for Go's \<^verbatim>\<open>nil\<close>: the source only tests its length).
  The parameter \<^verbatim>\<open>_fname\<close> of the source is not used by it and is left out.
\<close>

definition loadRow :: "CfgBlock \<Rightarrow> string \<Rightarrow> string \<Rightarrow> CfgBlock \<times> string" where
  "loadRow cfg line0 rowName =
     (let line = cleanLine line0 in
      if length rowName < 1 then
        (let nnNew = Index line ''::'';
             nnAdd = Index line ''+=''
         in if nnNew \<ge> 0 \<and> nnAdd > 0 then
              (if nnNew > nnAdd then
                 (let rn = cleanLine (take (nat nnAdd) line);
                      rowData = cleanLine (drop (nat nnAdd + 2) line)
                  in (storeRow cfg rn rowData False, rn))
               else
                 (let rn = cleanLine (take (nat nnNew) line);
                      rowData = cleanLine (drop (nat nnNew + 2) line)
                  in (storeRow cfg rn rowData True, rn)))
            else if nnAdd > 0 then
              (let rn = cleanLine (take (nat nnAdd) line);
                   rowData = cleanLine (drop (nat nnAdd + 2) line)
               in (storeRow cfg rn rowData True, rn))
            else if nnNew > 0 then
              (let rn = cleanLine (take (nat nnNew) line);
                   rowData = cleanLine (drop (nat nnNew + 2) line)
               in (storeRow cfg rn rowData False, rn))
            else (cfg, []))
      else (storeRow cfg rowName line True, rowName))"

text \<open>
  The two reading loops. Each iteration of a loop is one call of the model, and every
  call spends one unit of the recursion bound. The arguments that change from one
  iteration to the next are the block being filled, \<open>prevRow\<close> and the reader. The
  diagnostics printed on the way, the \<^verbatim>\<open>_verbose\<close> flag that selects them and the
  unused \<^verbatim>\<open>_tblname\<close> are left out. \<open>loadBlock_loop\<close> also returns the reader,
  which its caller goes on reading.
\<close>

definition setTbl :: "CfgBlock \<Rightarrow> string \<Rightarrow> CfgBlock \<Rightarrow> CfgBlock" where
  "setTbl cfg name2 child = CfgBlock (name cfg) (fname cfg) (rows cfg) ((tbls cfg)(name2 \<mapsto> child))"

fun loadCfgFile_loop :: "nat \<Rightarrow> os \<Rightarrow> CfgBlock \<Rightarrow> string \<Rightarrow> string \<Rightarrow> string \<Rightarrow> CfgBlock result"
  and loadBlock_loop :: "nat \<Rightarrow> os \<Rightarrow> CfgBlock \<Rightarrow> string \<Rightarrow> string \<Rightarrow> string \<Rightarrow> (CfgBlock \<times> string) result"
where
  "loadCfgFile_loop 0 sys cfg fnm prevRow rdr = OutOfFuel"
| "loadCfgFile_loop (Suc n) sys cfg fnm prevRow rdr =
     (case ReadBytes rdr of (buf0, done, rdr') \<Rightarrow>
        if length buf0 < 1 then
          (if done then Ok cfg else loadCfgFile_loop n sys cfg fnm prevRow rdr')
        else
          (let buf = cleanLine (butlast buf0) in
           if length buf < 1 then
             (if done then Ok cfg else loadCfgFile_loop n sys cfg fnm prevRow rdr')
           else if lineIsInclude buf then
             (case getFilename (TrimSpace buf) of
                OutOfFuel \<Rightarrow> OutOfFuel
              | Panic e \<Rightarrow> Panic e
              | Ok f \<Rightarrow>
                  (let fname2 = expandUser sys f in
                   case os_Open sys fname2 of
                     None \<Rightarrow> Panic (''could not open file '' @ fname2)
                   | Some content \<Rightarrow>
                       (case loadCfgFile_loop n sys cfg fname2 [] content of
                          OutOfFuel \<Rightarrow> OutOfFuel
                        | Panic e \<Rightarrow> Panic e
                        | Ok cfg' \<Rightarrow>
                            if done then Ok cfg'
                            else loadCfgFile_loop n sys cfg' fnm prevRow rdr')))
           else if lineIsBlockEnd buf then Ok cfg
           else if lineIsBlockNew buf then
             (let name2 = getBlockname buf in
              case loadBlock_loop n sys (CfgBlock name2 fnm Map.empty Map.empty) fnm [] rdr' of
                OutOfFuel \<Rightarrow> OutOfFuel
              | Panic e \<Rightarrow> Panic e
              | Ok (child, rdr'') \<Rightarrow>
                  if done then Ok (setTbl cfg name2 child)
                  else loadCfgFile_loop n sys (setTbl cfg name2 child) fnm prevRow rdr'')
           else if length buf > 2 \<and> buf ! 0 = CHR ''+'' \<and> buf ! 1 = CHR ''='' then
             (case loadRow cfg (drop 2 buf) prevRow of (cfg', prevRow') \<Rightarrow>
                if done then Ok cfg' else loadCfgFile_loop n sys cfg' fnm prevRow' rdr')
           else if length buf > 0 \<and> buf ! 0 = CHR ''{'' then
             (if done then Ok cfg else loadCfgFile_loop n sys cfg fnm prevRow rdr')
           else
             (case loadRow cfg buf [] of (cfg', prevRow') \<Rightarrow>
                if done then Ok cfg' else loadCfgFile_loop n sys cfg' fnm prevRow' rdr')))"
| "loadBlock_loop 0 sys cfg fnm prevRow rdr = OutOfFuel"
| "loadBlock_loop (Suc n) sys cfg fnm prevRow rdr =
     (case ReadBytes rdr of (buf0, done, rdr') \<Rightarrow>
        if length buf0 < 1 then
          (if done then Ok (cfg, rdr') else loadBlock_loop n sys cfg fnm prevRow rdr')
        else
          (let buf = cleanLine (butlast buf0) in
           if length buf < 1 then
             (if done then Ok (cfg, rdr') else loadBlock_loop n sys cfg fnm prevRow rdr')
           else if lineIsInclude buf then
             (case getFilename (TrimSpace buf) of
                OutOfFuel \<Rightarrow> OutOfFuel
              | Panic e \<Rightarrow> Panic e
              | Ok f \<Rightarrow>
                  (let fname2 = expandUser sys f in
                   case os_Open sys fname2 of
                     None \<Rightarrow> Panic (''could not open file '' @ fname2)
                   | Some content \<Rightarrow>
                       (case loadCfgFile_loop n sys cfg fname2 [] content of
                          OutOfFuel \<Rightarrow> OutOfFuel
                        | Panic e \<Rightarrow> Panic e
                        | Ok cfg' \<Rightarrow>
                            if done then Ok (cfg', rdr')
                            else loadBlock_loop n sys cfg' fnm prevRow rdr')))
           else if lineIsBlockEnd buf then Ok (cfg, rdr')
           else if lineIsBlockNew buf then
             (let name2 = getBlockname buf in
              case loadBlock_loop n sys (CfgBlock name2 fnm Map.empty Map.empty) fnm [] rdr' of
                OutOfFuel \<Rightarrow> OutOfFuel
              | Panic e \<Rightarrow> Panic e
              | Ok (child, rdr'') \<Rightarrow>
                  if done then Ok (setTbl cfg name2 child, rdr'')
                  else loadBlock_loop n sys (setTbl cfg name2 child) fnm prevRow rdr'')
           else if length buf > 2 \<and> buf ! 0 = CHR ''+'' \<and> buf ! 1 = CHR ''='' then
             (case loadRow cfg (drop 2 buf) prevRow of (cfg', prevRow') \<Rightarrow>
                if done then Ok (cfg', rdr') else loadBlock_loop n sys cfg' fnm prevRow' rdr')
           else if length buf > 0 \<and> buf ! 0 = CHR ''{'' then
             (if done then Ok (cfg, rdr') else loadBlock_loop n sys cfg fnm prevRow rdr')
           else
             (case loadRow cfg buf [] of (cfg', prevRow') \<Rightarrow>
                if done then Ok (cfg', rdr') else loadBlock_loop n sys cfg' fnm prevRow' rdr')))"

text \<open>The two functions as they are called: the loop entered with no previous row.\<close>

definition loadCfgFile :: "nat \<Rightarrow> os \<Rightarrow> CfgBlock \<Rightarrow> string \<Rightarrow> string \<Rightarrow> CfgBlock result" where
  "loadCfgFile n sys cfg fnm rdr = loadCfgFile_loop n sys cfg fnm [] rdr"

definition loadBlock :: "nat \<Rightarrow> os \<Rightarrow> CfgBlock \<Rightarrow> string \<Rightarrow> string \<Rightarrow> (CfgBlock \<times> string) result" where
  "loadBlock n sys cfg fnm rdr = loadBlock_loop n sys cfg fnm [] rdr"

section \<open>The registry of top-level configs\<close>

text \<open>
  \<^verbatim>\<open>cfgs\<close> maps names to pointers; the pointers are indices into the list of the
  blocks allocated so far, so two calls return the same instance when they return
  the same index.
\<close>

record world =
  cfgs :: "string \<Rightarrow> nat option"
  heap :: "CfgBlock list"

definition NewCfg :: "nat \<Rightarrow> os \<Rightarrow> world \<Rightarrow> string \<Rightarrow> string \<Rightarrow> (nat \<times> world) result" where
  "NewCfg n sys w nm fnm0 =
     (let fnm = expandUser sys fnm0 in
      case cfgs w nm of
        Some p \<Rightarrow> Ok (p, w)
      | None \<Rightarrow>
          (let w1 = \<lparr>cfgs = (cfgs w)(nm \<mapsto> length (heap w)),
                     heap = heap w @ [CfgBlock nm fnm Map.empty Map.empty]\<rparr>
           in case cfgs w1 nm of
                None \<Rightarrow> Panic (''cfg: NewCfg failed for cfg '' @ nm)
              | Some p \<Rightarrow>
                  (case os_Open sys fnm of
                     None \<Rightarrow> Panic (''could not open file '' @ fnm)
                   | Some content \<Rightarrow>
                       (case loadCfgFile n sys (heap w1 ! p) fnm content of
                          OutOfFuel \<Rightarrow> OutOfFuel
                        | Panic e \<Rightarrow> Panic e
                        | Ok cfg' \<Rightarrow> Ok (p, w1\<lparr>heap := (heap w1)[p := cfg']\<rparr>)))))"

definition NewCfgMem :: "world \<Rightarrow> string \<Rightarrow> (nat \<times> world) result" where
  "NewCfgMem w nm =
     (case cfgs w nm of
        Some p \<Rightarrow> Panic (''cfg: NewCfgMem or NewCfg already called for cfg '' @ nm)
      | None \<Rightarrow>
          (let w1 = \<lparr>cfgs = (cfgs w)(nm \<mapsto> length (heap w)),
                     heap = heap w @ [CfgBlock nm [] Map.empty Map.empty]\<rparr>
           in case cfgs w1 nm of
                None \<Rightarrow> Panic (''cfg: NewCfgMem failed for cfg '' @ nm)
              | Some p \<Rightarrow> Ok (p, w1)))"

section \<open>Editing and writing\<close>

definition EditEntry :: "CfgBlock \<Rightarrow> string \<Rightarrow> string \<Rightarrow> string \<Rightarrow> string \<Rightarrow> CfgBlock" where
  "EditEntry cfg tbln rown coln val =
     (let tbl = (case tbls cfg tbln of
                   Some t \<Rightarrow> t
                 | None \<Rightarrow> CfgBlock (name cfg) [] Map.empty Map.empty);
          row = (case rows tbl rown of
                   Some r \<Rightarrow> r
                 | None \<Rightarrow> \<lparr>row_name = rown, cols = Map.empty\<rparr>);
          row' = row\<lparr>cols := (cols row)(coln \<mapsto> val)\<rparr>;
          tbl' = CfgBlock (name tbl) (fname tbl) ((rows tbl)(rown \<mapsto> row')) (tbls tbl)
      in CfgBlock (name cfg) (fname cfg) (rows cfg) ((tbls cfg)(tbln \<mapsto> tbl')))"

text \<open>\<open>EditEntry\<close> has a pointer receiver: the block at the pointer is updated in place.\<close>

definition EditEntry_at :: "world \<Rightarrow> nat \<Rightarrow> string \<Rightarrow> string \<Rightarrow> string \<Rightarrow> string \<Rightarrow> world" where
  "EditEntry_at w p tbln rown coln val =
     w\<lparr>heap := (heap w)[p := EditEntry (heap w ! p) tbln rown coln val]\<rparr>"

text \<open>
  \<open>CfgWrite\<close> ranges over three levels of Go maps, whose iteration order the
  language leaves open. The order the run time picks is an argument of the model:
  the block names in the order visited, with each the row names in the order
  visited, with each the column names in the order visited.
\<close>

type_synonym iter_order = "(string \<times> (string \<times> string list) list) list"

definition writeCols :: "cfgRow \<Rightarrow> string list \<Rightarrow> string" where
  "writeCols rowcontent cs =
     concat (map (\<lambda>colname. case cols rowcontent colname of
                              None \<Rightarrow> []
                            | Some v \<Rightarrow> colname @ ''='' @ v @ ''; '') cs)"

definition writeRows :: "CfgBlock \<Rightarrow> (string \<times> string list) list \<Rightarrow> string" where
  "writeRows tblcontent rs =
     concat (map (\<lambda>(rowname, cs). case rows tblcontent rowname of
                              None \<Rightarrow> []
                            | Some rowcontent \<Rightarrow>
                                [TAB] @ rowname @ [TAB] @ '':: '' @ writeCols rowcontent cs @ [NL]) rs)"

definition writeTbls :: "CfgBlock \<Rightarrow> iter_order \<Rightarrow> string" where
  "writeTbls cfg ord =
     concat (map (\<lambda>(tbl, rs). case tbls cfg tbl of
                              None \<Rightarrow> []
                            | Some tblcontent \<Rightarrow>
                                [NL] @ ''%block '' @ tbl @ [NL] @ ''{'' @ [NL]
                                @ writeRows tblcontent rs @ [NL] @ ''}'' @ [NL]) ord)"

definition CfgWrite :: "os \<Rightarrow> iter_order \<Rightarrow> CfgBlock \<Rightarrow> string \<Rightarrow> os result" where
  "CfgWrite sys ord cfg filename0 =
     (let filename = expandUser sys filename0 in
      case (if filename = [] then Some ''no such file or directory''
            else create_error sys filename) of
        Some err \<Rightarrow> Panic (''Cannot open filename : '' @ filename @ '' Error :'' @ err)
      | None \<Rightarrow> Ok (sys\<lparr>files := (files sys)(filename \<mapsto> writeTbls cfg ord)\<rparr>))"

text \<open>An order is one the run time can pick when it lists every key of each map once.\<close>

definition valid_cols_order :: "cfgRow \<Rightarrow> string list \<Rightarrow> bool" where
  "valid_cols_order rw cs \<longleftrightarrow> distinct cs \<and> set cs = dom (cols rw)"

definition valid_rows_order :: "CfgBlock \<Rightarrow> (string \<times> string list) list \<Rightarrow> bool" where
  "valid_rows_order t rs \<longleftrightarrow>
     distinct (map fst rs) \<and> set (map fst rs) = dom (rows t) \<and>
     (\<forall>(r, cs) \<in> set rs. case rows t r of None \<Rightarrow> False | Some rw \<Rightarrow> valid_cols_order rw cs)"

definition valid_order :: "CfgBlock \<Rightarrow> iter_order \<Rightarrow> bool" where
  "valid_order cfg ord \<longleftrightarrow>
     distinct (map fst ord) \<and> set (map fst ord) = dom (tbls cfg) \<and>
     (\<forall>(b, rs) \<in> set ord. case tbls cfg b of None \<Rightarrow> False | Some t \<Rightarrow> valid_rows_order t rs)"

section \<open>Queries\<close>

definition Str :: "CfgBlock \<Rightarrow> string \<Rightarrow> string \<Rightarrow> string \<Rightarrow> string \<Rightarrow> string" where
  "Str cfg tbln rown coln def =
     (case tbls cfg tbln of
        None \<Rightarrow> def
      | Some tbl \<Rightarrow>
          (case rows tbl rown of
             None \<Rightarrow> def
           | Some row \<Rightarrow> (case cols row coln of None \<Rightarrow> def | Some col \<Rightarrow> col)))"

definition SelfStr :: "CfgBlock \<Rightarrow> string \<Rightarrow> string \<Rightarrow> string \<Rightarrow> string" where
  "SelfStr cfg rown coln def =
     (case rows cfg rown of
        None \<Rightarrow> def
      | Some row \<Rightarrow> (case cols row coln of None \<Rightarrow> def | Some col \<Rightarrow> col))"

text \<open>\<open>GetBlock\<close> returns \<open>None\<close> where the source returns \<^verbatim>\<open>nil\<close>.\<close>

fun GetBlock :: "CfgBlock \<Rightarrow> string list \<Rightarrow> CfgBlock option" where
  "GetBlock cfg1 [] = Some cfg1"
| "GetBlock cfg1 (tbl # blockPath) =
     (case tbls cfg1 tbl of None \<Rightarrow> None | Some cfg2 \<Rightarrow> GetBlock cfg2 blockPath)"

definition NestedStr :: "CfgBlock \<Rightarrow> string list \<Rightarrow> string \<Rightarrow> string \<Rightarrow> string \<Rightarrow> string" where
  "NestedStr cfg tblpath rown coln def =
     (let nn = length tblpath in
      if nn = 0 then SelfStr cfg rown coln def
      else (let nn = nn - 1 in
            if nn = 0 then Str cfg (tblpath ! 0) rown coln def
            else (case GetBlock cfg (take nn tblpath) of
                    None \<Rightarrow> def
                  | Some cfg1 \<Rightarrow> Str cfg1 (tblpath ! nn) rown coln def)))"

text \<open>
  The numeric queries store the default in a local variable and hand the column text
  to \<^verbatim>\<open>fmt.Sscanf\<close>, which overwrites the variable only when it can scan a number.
  \<^verbatim>\<open>fmt.Sscanf\<close> belongs to Go's library, not to this package; it is an argument of
  the model: \<open>scan s\<close> is the number stored for the text \<open>s\<close>, or \<open>None\<close> when
  nothing is stored. Go's \<^verbatim>\<open>int\<close> is taken at 64 bits, as on amd64 and arm64, and
  \<^verbatim>\<open>float64\<close> is a type parameter, since the package does no arithmetic on it.
\<close>

type_synonym go_int = "64 word"
type_synonym go_int64 = "64 word"

definition Int_cfg :: "(string \<Rightarrow> go_int option) \<Rightarrow> CfgBlock \<Rightarrow> string \<Rightarrow> string \<Rightarrow> string \<Rightarrow> go_int \<Rightarrow> go_int" where
  "Int_cfg scan cfg tbln rown coln def =
     (case tbls cfg tbln of
        None \<Rightarrow> def
      | Some tbl \<Rightarrow>
          (case rows tbl rown of
             None \<Rightarrow> def
           | Some row \<Rightarrow>
               (case cols row coln of
                  None \<Rightarrow> def
                | Some col \<Rightarrow>
                    (let ival = def in case scan col of None \<Rightarrow> ival | Some v \<Rightarrow> v))))"

definition SelfInt :: "(string \<Rightarrow> go_int option) \<Rightarrow> CfgBlock \<Rightarrow> string \<Rightarrow> string \<Rightarrow> go_int \<Rightarrow> go_int" where
  "SelfInt scan cfg rown coln def =
     (case rows cfg rown of
        None \<Rightarrow> def
      | Some row \<Rightarrow>
          (case cols row coln of
             None \<Rightarrow> def
           | Some col \<Rightarrow>
               (let ival = def in case scan col of None \<Rightarrow> ival | Some v \<Rightarrow> v)))"

definition NestedInt :: "(string \<Rightarrow> go_int option) \<Rightarrow> CfgBlock \<Rightarrow> string list \<Rightarrow> string \<Rightarrow> string \<Rightarrow> go_int \<Rightarrow> go_int" where
  "NestedInt scan cfg tblpath rown coln def =
     (let nn = length tblpath in
      if nn = 0 then SelfInt scan cfg rown coln def
      else (let nn = nn - 1 in
            if nn = 0 then Int_cfg scan cfg (tblpath ! 0) rown coln def
            else (case GetBlock cfg (take nn tblpath) of
                    None \<Rightarrow> def
                  | Some cfg1 \<Rightarrow> Int_cfg scan cfg1 (tblpath ! nn) rown coln def)))"

definition Int64 :: "(string \<Rightarrow> go_int option) \<Rightarrow> CfgBlock \<Rightarrow> string \<Rightarrow> string \<Rightarrow> string \<Rightarrow> go_int64 \<Rightarrow> go_int64" where
  "Int64 scan cfg tbln rown coln def =
     (case tbls cfg tbln of
        None \<Rightarrow> def
      | Some tbl \<Rightarrow>
          (case rows tbl rown of
             None \<Rightarrow> def
           | Some row \<Rightarrow>
               (case cols row coln of
                  None \<Rightarrow> def
                | Some col \<Rightarrow>
                    (let ival = (scast def :: go_int) in
                     scast (case scan col of None \<Rightarrow> ival | Some v \<Rightarrow> v)))))"

definition SelfInt64 :: "(string \<Rightarrow> go_int option) \<Rightarrow> CfgBlock \<Rightarrow> string \<Rightarrow> string \<Rightarrow> go_int64 \<Rightarrow> go_int64" where
  "SelfInt64 scan cfg rown coln def =
     (case rows cfg rown of
        None \<Rightarrow> def
      | Some row \<Rightarrow>
          (case cols row coln of
             None \<Rightarrow> def
           | Some col \<Rightarrow>
               (let ival = (scast def :: go_int) in
                scast (case scan col of None \<Rightarrow> ival | Some v \<Rightarrow> v))))"

definition NestedInt64 :: "(string \<Rightarrow> go_int option) \<Rightarrow> CfgBlock \<Rightarrow> string list \<Rightarrow> string \<Rightarrow> string \<Rightarrow> go_int64 \<Rightarrow> go_int64" where
  "NestedInt64 scan cfg tblpath rown coln def =
     (let nn = length tblpath in
      if nn = 0 then SelfInt64 scan cfg rown coln def
      else (let nn = nn - 1 in
            if nn = 0 then Int64 scan cfg (tblpath ! 0) rown coln def
            else (case GetBlock cfg (take nn tblpath) of
                    None \<Rightarrow> def
                  | Some cfg1 \<Rightarrow> Int64 scan cfg1 (tblpath ! nn) rown coln def)))"

definition Float64 :: "(string \<Rightarrow> 'f option) \<Rightarrow> CfgBlock \<Rightarrow> string \<Rightarrow> string \<Rightarrow> string \<Rightarrow> 'f \<Rightarrow> 'f" where
  "Float64 scan cfg tbln rown coln def =
     (case tbls cfg tbln of
        None \<Rightarrow> def
      | Some tbl \<Rightarrow>
          (case rows tbl rown of
             None \<Rightarrow> def
           | Some row \<Rightarrow>
               (case cols row coln of
                  None \<Rightarrow> def
                | Some col \<Rightarrow>
                    (let ival = def in case scan col of None \<Rightarrow> ival | Some v \<Rightarrow> v))))"

definition SelfFloat64 :: "(string \<Rightarrow> 'f option) \<Rightarrow> CfgBlock \<Rightarrow> string \<Rightarrow> string \<Rightarrow> 'f \<Rightarrow> 'f" where
  "SelfFloat64 scan cfg rown coln def =
     (case rows cfg rown of
        None \<Rightarrow> def
      | Some row \<Rightarrow>
          (case cols row coln of
             None \<Rightarrow> def
           | Some col \<Rightarrow>
               (let ival = def in case scan col of None \<Rightarrow> ival | Some v \<Rightarrow> v)))"

definition NestedFloat64 :: "(string \<Rightarrow> 'f option) \<Rightarrow> CfgBlock \<Rightarrow> string list \<Rightarrow> string \<Rightarrow> string \<Rightarrow> 'f \<Rightarrow> 'f" where
  "NestedFloat64 scan cfg tblpath rown coln def =
     (let nn = length tblpath in
      if nn = 0 then SelfFloat64 scan cfg rown coln def
      else (let nn = nn - 1 in
            if nn = 0 then Float64 scan cfg (tblpath ! 0) rown coln def
            else (case GetBlock cfg (take nn tblpath) of
                    None \<Rightarrow> def
                  | Some cfg1 \<Rightarrow> Float64 scan cfg1 (tblpath ! nn) rown coln def)))"

text \<open>
  A scanner for the verb \<^verbatim>\<open>%d\<close> on ASCII text, after the documentation of Go's
  \<^verbatim>\<open>fmt\<close>: leading blanks are skipped (a newline is an error), a sign may come
  first, at least one decimal digit must follow, the digits are read as far as they
  go, whatever follows them stays unread, and a number outside the range of the
  variable is an error. It serves for the concrete examples.
\<close>

definition isDigit :: "char \<Rightarrow> bool" where
  "isDigit c \<longleftrightarrow> 48 \<le> (of_char c :: nat) \<and> (of_char c :: nat) \<le> 57"

fun decimalValue :: "int \<Rightarrow> string \<Rightarrow> int" where
  "decimalValue acc [] = acc"
| "decimalValue acc (c # s) = decimalValue (10 * acc + (int (of_char c) - 48)) s"

definition Sscanf_d :: "string \<Rightarrow> go_int option" where
  "Sscanf_d s =
     (let s1 = dropWhile (\<lambda>c. c \<in> set [CHR '' '', TAB, CHR 0x0B, CHR 0x0C, CHR 0x0D]) s;
          neg = (s1 \<noteq> [] \<and> hd s1 = CHR ''-'');
          s2 = (if s1 \<noteq> [] \<and> (hd s1 = CHR ''-'' \<or> hd s1 = CHR ''+'') then tl s1 else s1);
          ds = takeWhile isDigit s2;
          v = (if neg then - decimalValue 0 ds else decimalValue 0 ds)
      in if ds = [] then None
         else if - (2 ^ 63) \<le> v \<and> v < 2 ^ 63 then Some (word_of_int v)
         else None)"

text \<open>
  The listing functions return Go slices filled by ranging over a map: every key
  once, in an order the language leaves open. They are modelled as the set of keys.
\<close>

definition GetBlocks :: "CfgBlock \<Rightarrow> string set" where
  "GetBlocks cfg = dom (tbls cfg)"

definition GetRows :: "CfgBlock \<Rightarrow> string \<Rightarrow> string set" where
  "GetRows cfg tbln = (case tbls cfg tbln of None \<Rightarrow> {} | Some tbl \<Rightarrow> dom (rows tbl))"

definition GetCols :: "CfgBlock \<Rightarrow> string \<Rightarrow> string \<Rightarrow> string set" where
  "GetCols cfg tbln rown =
     (case tbls cfg tbln of
        None \<Rightarrow> {}
      | Some tbl \<Rightarrow> (case rows tbl rown of None \<Rightarrow> {} | Some row \<Rightarrow> dom (cols row)))"

definition RowExists :: "CfgBlock \<Rightarrow> string \<Rightarrow> string \<Rightarrow> bool" where
  "RowExists cfg block rown =
     (case tbls cfg block of
        None \<Rightarrow> False
      | Some tbl \<Rightarrow> (case rows tbl rown of None \<Rightarrow> False | Some r \<Rightarrow> True))"

definition Split :: "CfgBlock \<Rightarrow> string \<Rightarrow> string \<Rightarrow> string \<Rightarrow> string \<Rightarrow> string list" where
  "Split cfg tbln rown coln def = strings_Split (Str cfg tbln rown coln def) (CHR '','')"

text \<open>
  \<open>Expandlist\<close> collects the keys of its local map \<^verbatim>\<open>partsmap\<close> into a slice, in
  the order the range over the map yields them; the model returns the set of keys.
\<close>

definition Expandlist :: "CfgBlock \<Rightarrow> string \<Rightarrow> string \<Rightarrow> string \<Rightarrow> string \<Rightarrow> string set" where
  "Expandlist cfg blockn rown coln row2 =
     (if length blockn \<le> 0 then {}
      else if length rown \<le> 0 then {}
      else if length coln \<le> 0 then {}
      else if length row2 \<le> 0 then {}
      else (\<Union>boxtype \<in> set (Split cfg blockn rown coln []).
              set (Split cfg blockn row2 boxtype [])))"

section \<open>Notions used to state the properties\<close>

text \<open>
  The text stored at a path of block names, a row and a column, when all of them
  exist.
\<close>

definition stored_text :: "CfgBlock \<Rightarrow> string list \<Rightarrow> string \<Rightarrow> string \<Rightarrow> string option" where
  "stored_text cfg path rown coln =
     (case GetBlock cfg path of
        None \<Rightarrow> None
      | Some b \<Rightarrow> (case rows b rown of None \<Rightarrow> None | Some r \<Rightarrow> cols r coln))"

text \<open>A lookup is unreadable when nothing is stored or the scanner rejects what is.\<close>

definition unreadable :: "(string \<Rightarrow> 'a option) \<Rightarrow> string option \<Rightarrow> bool" where
  "unreadable scan t = (case t of None \<Rightarrow> True | Some s \<Rightarrow> scan s = None)"

text \<open>Concrete inputs for the examples.\<close>

definition no_files :: os where
  "no_files = \<lparr>files = Map.empty, home_dir = ''/home/u'', create_error = Map.empty\<rparr>"

definition empty_cfg :: CfgBlock where
  "empty_cfg = CfgBlock ''cfg'' [] Map.empty Map.empty"

definition one_cfg_world :: world where
  "one_cfg_world = \<lparr>cfgs = [''cfg'' \<mapsto> 0], heap = [empty_cfg]\<rparr>"

definition abc_row :: cfgRow where
  "abc_row = \<lparr>row_name = ''r'', cols = [''c'' \<mapsto> ''abc'']\<rparr>"

definition abc_cfg :: CfgBlock where
  "abc_cfg =
     CfgBlock ''cfg'' [] [''r'' \<mapsto> abc_row]
       [''t'' \<mapsto> CfgBlock ''t'' [] [''r'' \<mapsto> abc_row]
                  [''u'' \<mapsto> CfgBlock ''u'' [] [''r'' \<mapsto> abc_row] Map.empty]]"

text \<open>A scanner for the verb \<^verbatim>\<open>%g\<close> that knows one text; a float64 is given by its bits.\<close>

definition scan_g_table :: "string \<Rightarrow> 64 word option" where
  "scan_g_table s = (if s = ''0.3'' then Some 0x3FD3333333333333 else None)"

definition list_cfg :: CfgBlock where
  "list_cfg = EditEntry empty_cfg ''b'' ''r'' ''c'' ''x,y''"

text \<open>
  A file given by its lines, each ended by a newline.
\<close>

definition lines_text :: "string list \<Rightarrow> string" where
  "lines_text ls = concat (map (\<lambda>l. l @ [NL]) ls)"

definition setRow :: "CfgBlock \<Rightarrow> string \<Rightarrow> cfgRow \<Rightarrow> CfgBlock" where
  "setRow cfg rn r = CfgBlock (name cfg) (fname cfg) ((rows cfg)(rn \<mapsto> r)) (tbls cfg)"

text \<open>
  The body that the two reading loops share, with what differs between them as
  arguments: what is returned at the end (\<open>ret\<close>), the next iteration (\<open>cont\<close>),
  the load of an included file (\<open>recF\<close>) and the load of a nested block (\<open>recB\<close>).
  Both loops are instances of it (\<open>loadCfgFile_loop_step\<close>, \<open>loadBlock_loop_step\<close>);
  it serves to prove facts about both at once.
\<close>

definition line_step ::
  "(CfgBlock \<Rightarrow> string \<Rightarrow> 'r result) \<Rightarrow> (CfgBlock \<Rightarrow> string \<Rightarrow> string \<Rightarrow> 'r result) \<Rightarrow>
   (CfgBlock \<Rightarrow> string \<Rightarrow> string \<Rightarrow> CfgBlock result) \<Rightarrow>
   (CfgBlock \<Rightarrow> string \<Rightarrow> (CfgBlock \<times> string) result) \<Rightarrow>
   os \<Rightarrow> CfgBlock \<Rightarrow> string \<Rightarrow> string \<Rightarrow> string \<Rightarrow> 'r result" where
  "line_step ret cont recF recB sys cfg fnm prevRow rdr =
     (case ReadBytes rdr of (buf0, done, rdr') \<Rightarrow>
        if length buf0 < 1 then
          (if done then ret cfg rdr' else cont cfg prevRow rdr')
        else
          (let buf = cleanLine (butlast buf0) in
           if length buf < 1 then
             (if done then ret cfg rdr' else cont cfg prevRow rdr')
           else if lineIsInclude buf then
             (case getFilename (TrimSpace buf) of
                OutOfFuel \<Rightarrow> OutOfFuel
              | Panic e \<Rightarrow> Panic e
              | Ok f \<Rightarrow>
                  (let fname2 = expandUser sys f in
                   case os_Open sys fname2 of
                     None \<Rightarrow> Panic (''could not open file '' @ fname2)
                   | Some content \<Rightarrow>
                       (case recF cfg fname2 content of
                          OutOfFuel \<Rightarrow> OutOfFuel
                        | Panic e \<Rightarrow> Panic e
                        | Ok cfg' \<Rightarrow>
                            if done then ret cfg' rdr'
                            else cont cfg' prevRow rdr')))
           else if lineIsBlockEnd buf then ret cfg rdr'
           else if lineIsBlockNew buf then
             (let name2 = getBlockname buf in
              case recB (CfgBlock name2 fnm Map.empty Map.empty) rdr' of
                OutOfFuel \<Rightarrow> OutOfFuel
              | Panic e \<Rightarrow> Panic e
              | Ok (child, rdr'') \<Rightarrow>
                  if done then ret (setTbl cfg name2 child) rdr''
                  else cont (setTbl cfg name2 child) prevRow rdr'')
           else if length buf > 2 \<and> buf ! 0 = CHR ''+'' \<and> buf ! 1 = CHR ''='' then
             (case loadRow cfg (drop 2 buf) prevRow of (cfg', prevRow') \<Rightarrow>
                if done then ret cfg' rdr' else cont cfg' prevRow' rdr')
           else if length buf > 0 \<and> buf ! 0 = CHR ''{'' then
             (if done then ret cfg rdr' else cont cfg prevRow rdr')
           else
             (case loadRow cfg buf [] of (cfg', prevRow') \<Rightarrow>
                if done then ret cfg' rdr' else cont cfg' prevRow' rdr')))"

text \<open>One outcome is below another when it ran out of fuel or is the same.\<close>

definition le_res :: "'a result \<Rightarrow> 'a result \<Rightarrow> bool" where
  "le_res r r' \<longleftrightarrow> r = OutOfFuel \<or> r = r'"

text \<open>
  What the file format can hold. A text is trimmed when it neither starts nor ends with
  a blank, and plain when moreover it has no newline and no \<^verbatim>\<open>#\<close>. A block name must
  be plain and not empty. A row name must be plain and not empty, and the line written
  for it must still be read as a row line under that name: the name holds neither
  \<^verbatim>\<open>::\<close> nor \<^verbatim>\<open>+=\<close> (single \<^verbatim>\<open>:\<close>, \<^verbatim>\<open>=\<close> and \<^verbatim>\<open>+\<close> are fine), does not begin
  with \<^verbatim>\<open>%include\<close>, is not itself a \<^verbatim>\<open>%block\<close> header (\<^verbatim>\<open>%block\<close> in any case,
  a space, more text), and does not begin with a brace. A column name is plain, not
  empty and has no \<^verbatim>\<open>;\<close> and no \<^verbatim>\<open>=\<close>; a value is plain, has no \<^verbatim>\<open>;\<close> and may
  be empty.
\<close>

definition trimmed :: "string \<Rightarrow> bool" where
  "trimmed s \<longleftrightarrow> s = [] \<or> (hd s \<notin> set blanks \<and> last s \<notin> set blanks)"

definition plain_text :: "string \<Rightarrow> bool" where
  "plain_text s \<longleftrightarrow> NL \<notin> set s \<and> CHR ''#'' \<notin> set s \<and> trimmed s"

definition block_name_ok :: "string \<Rightarrow> bool" where
  "block_name_ok b \<longleftrightarrow> b \<noteq> [] \<and> plain_text b"

definition row_name_ok :: "string \<Rightarrow> bool" where
  "row_name_ok r \<longleftrightarrow>
     r \<noteq> [] \<and> plain_text r \<and> Index r ''::'' < 0 \<and> Index r ''+='' < 0 \<and>
     take 8 r \<noteq> ''%include'' \<and> \<not> lineIsBlockNew r \<and> hd r \<notin> {CHR ''{'', CHR ''}''}"

definition col_name_ok :: "string \<Rightarrow> bool" where
  "col_name_ok c \<longleftrightarrow> c \<noteq> [] \<and> plain_text c \<and> CHR '';'' \<notin> set c \<and> CHR ''='' \<notin> set c"

definition value_ok :: "string \<Rightarrow> bool" where
  "value_ok v \<longleftrightarrow> plain_text v \<and> CHR '';'' \<notin> set v"

definition clean_row :: "cfgRow \<Rightarrow> bool" where
  "clean_row rw \<longleftrightarrow> (\<forall>c v. cols rw c = Some v \<longrightarrow> col_name_ok c \<and> value_ok v)"

definition clean_block :: "CfgBlock \<Rightarrow> bool" where
  "clean_block t \<longleftrightarrow> (\<forall>r rw. rows t r = Some rw \<longrightarrow> row_name_ok r \<and> clean_row rw)"

definition clean_tree :: "CfgBlock \<Rightarrow> bool" where
  "clean_tree T \<longleftrightarrow> (\<forall>b t. tbls T b = Some t \<longrightarrow> block_name_ok b \<and> clean_block t)"

text \<open>
  The row and the block that the loader builds from a written row and block: the row
  is named by its key, the block by its key and the file it was read from.
\<close>

definition loaded_row :: "string \<Rightarrow> cfgRow \<Rightarrow> cfgRow" where
  "loaded_row k rw = \<lparr>row_name = k, cols = cols rw\<rparr>"

definition loaded_block :: "string \<Rightarrow> string \<Rightarrow> CfgBlock \<Rightarrow> CfgBlock" where
  "loaded_block fnm k t = CfgBlock k fnm (\<lambda>r. map_option (loaded_row r) (rows t r)) Map.empty"

text \<open>A sequence of \<open>EditEntry\<close> calls on the block at a pointer.\<close>

definition edits_ok :: "(string \<times> string \<times> string \<times> string) list \<Rightarrow> bool" where
  "edits_ok es \<longleftrightarrow>
     (\<forall>(t, r, c, v) \<in> set es. block_name_ok t \<and> row_name_ok r \<and> col_name_ok c \<and> value_ok v)"

definition apply_edits :: "world \<Rightarrow> nat \<Rightarrow> (string \<times> string \<times> string \<times> string) list \<Rightarrow> world" where
  "apply_edits w p es = foldl (\<lambda>w (t, r, c, v). EditEntry_at w p t r c v) w es"

text \<open>What a call returned, for stating concrete examples.\<close>

definition loaded_tree :: "(nat \<times> world) result \<Rightarrow> CfgBlock" where
  "loaded_tree r = (case r of Ok (q, w) \<Rightarrow> heap w ! q | _ \<Rightarrow> CfgBlock [] [] Map.empty Map.empty)"

definition file_tree :: "CfgBlock result \<Rightarrow> CfgBlock" where
  "file_tree r = (case r of Ok cfg \<Rightarrow> cfg | _ \<Rightarrow> CfgBlock [] [] Map.empty Map.empty)"

definition written_os :: "os result \<Rightarrow> os" where
  "written_os r = (case r of Ok sys \<Rightarrow> sys | _ \<Rightarrow> no_files)"

text \<open>More concrete inputs for the examples.\<close>

definition no_world :: world where
  "no_world = \<lparr>cfgs = Map.empty, heap = []\<rparr>"

definition semicolon_world :: world where
  "semicolon_world = apply_edits one_cfg_world 0 [(''b'', ''r'', ''c'', ''x;y'')]"

definition semicolon_order :: iter_order where
  "semicolon_order = [(''b'', [(''r'', [''c''])])]"

definition sample_edits :: "(string \<times> string \<times> string \<times> string) list" where
  "sample_edits =
     [(''b'', ''r'', ''c'', ''v''), (''b'', ''r'', ''d'', ''x=y+=z''),
      (''b2'', ''host:8080'', ''k'', []), (''b2'', ''%x a=b'', ''j'', '':'')]"

definition sample_world :: world where
  "sample_world = apply_edits one_cfg_world 0 sample_edits"

definition sample_order :: iter_order where
  "sample_order =
     [(''b2'', [(''%x a=b'', [''j'']), (''host:8080'', [''k''])]), (''b'', [(''r'', [''d'', ''c''])])]"

definition sample_os :: os where
  "sample_os = written_os (CfgWrite no_files sample_order (heap sample_world ! 0) ''/tmp/out.cfg'')"

definition inc_os :: os where
  "inc_os = \<lparr>files = [''/top'' \<mapsto> lines_text [''%block t'', ''{'', ''r :: a=1;'', ''%include /a'', ''}''],
                       ''/a'' \<mapsto> lines_text [''s :: b=2;'', ''%include /missing'']],
             home_dir = ''/home/u'', create_error = Map.empty\<rparr>"

text \<open>
  Two readers are related by a final line \<open>l\<close> when they are equal, or when one ends
  with \<open>l\<close> and no newline and the other with \<open>l\<close> less its last byte and a newline,
  after the same complete lines. Two outcomes of the block loop are related when the
  first ran out of fuel, or both panic alike, or both return the same block and related
  readers.
\<close>

definition tail_rel :: "string \<Rightarrow> string \<Rightarrow> string \<Rightarrow> bool" where
  "tail_rel l rdr1 rdr2 \<longleftrightarrow>
     rdr1 = rdr2 \<or>
     (\<exists>pre. (pre = [] \<or> last pre = NL) \<and> rdr1 = pre @ l \<and> rdr2 = pre @ butlast l @ [NL])"

definition res_rel :: "(string \<Rightarrow> string \<Rightarrow> bool) \<Rightarrow> (CfgBlock \<times> string) result \<Rightarrow> (CfgBlock \<times> string) result \<Rightarrow> bool" where
  "res_rel R r1 r2 \<longleftrightarrow>
     r1 = OutOfFuel \<or> (\<exists>e. r1 = Panic e \<and> r2 = Panic e) \<or>
     (\<exists>c y1 y2. r1 = Ok (c, y1) \<and> r2 = Ok (c, y2) \<and> R y1 y2)"

section \<open>Registry\<close>

lemma NewCfgMem_registers:
  "NewCfgMem w nm = Ok (p, w') \<Longrightarrow> cfgs w' nm = Some p"
  by (auto simp: NewCfgMem_def split: option.splits)

lemma NewCfg_registers:
  "NewCfg n sys w nm fnm = Ok (p, w') \<Longrightarrow> cfgs w' nm = Some p"
  by (auto simp: NewCfg_def Let_def split: option.splits result.splits)

text \<open>
  C10. For every name already in the registry, \<open>NewCfgMem\<close> with that name panics: it
  neither returns the registered tree nor makes a new one.
\<close>

theorem NewCfgMem_registered_panics:
  "cfgs w nm \<noteq> None \<Longrightarrow>
   NewCfgMem w nm = Panic (''cfg: NewCfgMem or NewCfg already called for cfg '' @ nm)"
  by (auto simp: NewCfgMem_def)

theorem NewCfgMem_registered_panics_witness:
  "cfgs one_cfg_world ''cfg'' \<noteq> None \<and>
   NewCfgMem one_cfg_world ''cfg'' =
     Panic ''cfg: NewCfgMem or NewCfg already called for cfg cfg''"
  using NewCfgMem_registered_panics [of one_cfg_world "''cfg''"]
  by (simp add: one_cfg_world_def)

text \<open>
  C4. For every name that is registered, \<open>NewCfg\<close> with that name returns the registered
  pointer and leaves the registry and every block as they are, whatever the recursion
  bound, the files of the operating system and the path passed: no file is opened.
\<close>

theorem NewCfg_registered_returns_cached:
  "cfgs w nm = Some p \<Longrightarrow> NewCfg n sys w nm fnm = Ok (p, w)"
  by (simp add: NewCfg_def)

theorem NewCfg_registered_returns_cached_witness:
  "cfgs one_cfg_world ''cfg'' = Some 0 \<and>
   NewCfg 0 no_files one_cfg_world ''cfg'' ''/no/such/file'' = Ok (0, one_cfg_world)"
  using NewCfg_registered_returns_cached [of one_cfg_world "''cfg''" 0 0 no_files "''/no/such/file''"]
  by (simp add: one_cfg_world_def)

section \<open>Numeric queries\<close>

lemma GetBlock_snoc:
  "GetBlock cfg (xs @ [x]) = (case GetBlock cfg xs of None \<Rightarrow> None | Some b \<Rightarrow> tbls b x)"
  by (induction xs arbitrary: cfg) (auto split: option.splits)

lemma stored_text_snoc:
  "stored_text cfg (xs @ [x]) rown coln =
     (case GetBlock cfg xs of None \<Rightarrow> None | Some b \<Rightarrow> stored_text b [x] rown coln)"
  by (simp add: stored_text_def GetBlock_snoc split: option.splits)

lemma Int_cfg_default:
  "unreadable scan (stored_text cfg [tbln] rown coln) \<Longrightarrow> Int_cfg scan cfg tbln rown coln d = d"
  by (auto simp: unreadable_def stored_text_def Int_cfg_def split: option.splits)

lemma Int64_default:
  "unreadable scan (stored_text cfg [tbln] rown coln) \<Longrightarrow> Int64 scan cfg tbln rown coln d = d"
  by (auto simp: unreadable_def stored_text_def Int64_def split: option.splits)

lemma Float64_default:
  "unreadable scan (stored_text cfg [tbln] rown coln) \<Longrightarrow> Float64 scan cfg tbln rown coln d = d"
  by (auto simp: unreadable_def stored_text_def Float64_def split: option.splits)

lemma SelfInt_default:
  "unreadable scan (stored_text cfg [] rown coln) \<Longrightarrow> SelfInt scan cfg rown coln d = d"
  by (auto simp: unreadable_def stored_text_def SelfInt_def split: option.splits)

lemma SelfInt64_default:
  "unreadable scan (stored_text cfg [] rown coln) \<Longrightarrow> SelfInt64 scan cfg rown coln d = d"
  by (auto simp: unreadable_def stored_text_def SelfInt64_def split: option.splits)

lemma SelfFloat64_default:
  "unreadable scan (stored_text cfg [] rown coln) \<Longrightarrow> SelfFloat64 scan cfg rown coln d = d"
  by (auto simp: unreadable_def stored_text_def SelfFloat64_def split: option.splits)

text \<open>
  The three nested queries share their shape: an empty path is the query on the block
  itself, a path of one name the plain query, and a longer path the plain query on the
  block that all names but the last lead to.
\<close>

lemma nested_default:
  assumes u: "unreadable scan (stored_text cfg path rown coln)"
    and self: "unreadable scan (stored_text cfg [] rown coln) \<Longrightarrow> fself cfg = d"
    and plain: "\<And>b t. unreadable scan (stored_text b [t] rown coln) \<Longrightarrow> fplain b t = d"
  shows "(let nn = length path in
          if nn = 0 then fself cfg
          else (let nn = nn - 1 in
                if nn = 0 then fplain cfg (path ! 0)
                else (case GetBlock cfg (take nn path) of
                        None \<Rightarrow> d
                      | Some cfg1 \<Rightarrow> fplain cfg1 (path ! nn)))) = d"
proof (cases path rule: rev_cases)
  case Nil
  with u self show ?thesis by simp
next
  case (snoc xs x)
  show ?thesis
  proof (cases "xs = []")
    case True
    with snoc u plain show ?thesis by simp
  next
    case False
    have "unreadable scan
            (case GetBlock cfg xs of None \<Rightarrow> None | Some b \<Rightarrow> stored_text b [x] rown coln)"
      using u snoc by (simp add: stored_text_snoc)
    then have "(case GetBlock cfg xs of None \<Rightarrow> d | Some cfg1 \<Rightarrow> fplain cfg1 x) = d"
      by (cases "GetBlock cfg xs") (simp_all add: plain)
    with snoc False show ?thesis by (simp split: option.splits)
  qed
qed

lemma NestedInt_default:
  "unreadable scan (stored_text cfg path rown coln) \<Longrightarrow> NestedInt scan cfg path rown coln d = d"
  unfolding NestedInt_def
  by (rule nested_default [where scan = scan and rown = rown and coln = coln])
     (simp_all add: SelfInt_default Int_cfg_default)

lemma NestedInt64_default:
  "unreadable scan (stored_text cfg path rown coln) \<Longrightarrow> NestedInt64 scan cfg path rown coln d = d"
  unfolding NestedInt64_def
  by (rule nested_default [where scan = scan and rown = rown and coln = coln])
     (simp_all add: SelfInt64_default Int64_default)

lemma NestedFloat64_default:
  "unreadable scan (stored_text cfg path rown coln) \<Longrightarrow> NestedFloat64 scan cfg path rown coln d = d"
  unfolding NestedFloat64_def
  by (rule nested_default [where scan = scan and rown = rown and coln = coln])
     (simp_all add: SelfFloat64_default Float64_default)

text \<open>
  C3. Every numeric query (int, int64 and float64; plain, on the block itself, and
  nested) returns the default the caller passed when the block, the row or the column
  is absent, and when the stored text is one the scanner rejects. The result is a
  plain number: the queries have no error outcome.
\<close>

theorem numeric_query_default:
  fixes scan_d :: "string \<Rightarrow> go_int option" and scan_g :: "string \<Rightarrow> 'f option"
  shows
  "(unreadable scan_d (stored_text cfg [tbln] rown coln) \<longrightarrow>
      Int_cfg scan_d cfg tbln rown coln d = d \<and> Int64 scan_d cfg tbln rown coln d64 = d64) \<and>
   (unreadable scan_g (stored_text cfg [tbln] rown coln) \<longrightarrow>
      Float64 scan_g cfg tbln rown coln df = df) \<and>
   (unreadable scan_d (stored_text cfg [] rown coln) \<longrightarrow>
      SelfInt scan_d cfg rown coln d = d \<and> SelfInt64 scan_d cfg rown coln d64 = d64) \<and>
   (unreadable scan_g (stored_text cfg [] rown coln) \<longrightarrow>
      SelfFloat64 scan_g cfg rown coln df = df) \<and>
   (unreadable scan_d (stored_text cfg path rown coln) \<longrightarrow>
      NestedInt scan_d cfg path rown coln d = d \<and> NestedInt64 scan_d cfg path rown coln d64 = d64) \<and>
   (unreadable scan_g (stored_text cfg path rown coln) \<longrightarrow>
      NestedFloat64 scan_g cfg path rown coln df = df)"
  by (simp add: Int_cfg_default Int64_default Float64_default SelfInt_default SelfInt64_default
      SelfFloat64_default NestedInt_default NestedInt64_default NestedFloat64_default)

lemma Sscanf_d_abc: "Sscanf_d ''abc'' = None"
  by (simp add: Sscanf_d_def isDigit_def)

lemma abc_cfg_unreadable:
  "unreadable Sscanf_d (stored_text abc_cfg [''t''] ''r'' ''c'')"
  "unreadable scan_g_table (stored_text abc_cfg [''t''] ''r'' ''c'')"
  "unreadable Sscanf_d (stored_text abc_cfg [] ''r'' ''c'')"
  "unreadable scan_g_table (stored_text abc_cfg [] ''r'' ''c'')"
  "unreadable Sscanf_d (stored_text abc_cfg [''t'', ''u''] ''r'' ''c'')"
  "unreadable scan_g_table (stored_text abc_cfg [''t'', ''u''] ''r'' ''c'')"
  by (simp_all add: unreadable_def stored_text_def abc_cfg_def abc_row_def Sscanf_d_abc
      scan_g_table_def)

theorem numeric_query_default_witness:
  "unreadable Sscanf_d (stored_text abc_cfg [''t''] ''r'' ''c'') \<and>
   unreadable scan_g_table (stored_text abc_cfg [''t''] ''r'' ''c'') \<and>
   unreadable Sscanf_d (stored_text abc_cfg [] ''r'' ''c'') \<and>
   unreadable scan_g_table (stored_text abc_cfg [] ''r'' ''c'') \<and>
   unreadable Sscanf_d (stored_text abc_cfg [''t'', ''u''] ''r'' ''c'') \<and>
   unreadable scan_g_table (stored_text abc_cfg [''t'', ''u''] ''r'' ''c'') \<and>
   Int_cfg Sscanf_d abc_cfg ''t'' ''r'' ''c'' (-1) = -1 \<and>
   Int64 Sscanf_d abc_cfg ''t'' ''r'' ''c'' 42000000000 = 42000000000 \<and>
   Float64 scan_g_table abc_cfg ''t'' ''r'' ''c'' 0x3FB999999999999A = 0x3FB999999999999A \<and>
   SelfInt Sscanf_d abc_cfg ''r'' ''c'' (-1) = -1 \<and>
   SelfInt64 Sscanf_d abc_cfg ''r'' ''c'' 42000000000 = 42000000000 \<and>
   SelfFloat64 scan_g_table abc_cfg ''r'' ''c'' 0x3FB999999999999A = 0x3FB999999999999A \<and>
   NestedInt Sscanf_d abc_cfg [''t'', ''u''] ''r'' ''c'' (-1) = -1 \<and>
   NestedInt64 Sscanf_d abc_cfg [''t'', ''u''] ''r'' ''c'' 42000000000 = 42000000000 \<and>
   NestedFloat64 scan_g_table abc_cfg [''t'', ''u''] ''r'' ''c'' 0x3FB999999999999A
     = 0x3FB999999999999A"
  using abc_cfg_unreadable
    numeric_query_default [of Sscanf_d abc_cfg "''t''" "''r''" "''c''" "-1" 42000000000
      scan_g_table "0x3FB999999999999A" "[''t'', ''u'']"]
  by simp

section \<open>Split and Expandlist\<close>

lemma Split_from_nonempty: "Split_from acc c s \<noteq> []"
  by (induction s arbitrary: acc) auto

lemma strings_Split_nonempty: "strings_Split s c \<noteq> []"
  by (simp add: strings_Split_def Split_from_nonempty)

lemma Str_miss: "stored_text cfg [tbln] rown coln = None \<Longrightarrow> Str cfg tbln rown coln def = def"
  by (auto simp: stored_text_def Str_def split: option.splits)

lemma Split_miss:
  "stored_text cfg [tbln] rown coln = None \<Longrightarrow> Split cfg tbln rown coln [] = [[]]"
  by (simp add: Split_def Str_miss strings_Split_def)

text \<open>
  C9, as the claim states its last part: \<open>Expandlist\<close> has the empty string in its
  result whenever a listed key is absent from the target row. It fails when the name
  of the target row is empty: the keys \<open>x\<close> and \<open>y\<close> are listed, neither is in
  the target row, and the result is empty.
\<close>

theorem Expandlist_empty_name_counterexample:
  "''x'' \<in> set (Split list_cfg ''b'' ''r'' ''c'' []) \<and>
   stored_text list_cfg [''b''] [] ''x'' = None \<and>
   [] \<notin> Expandlist list_cfg ''b'' ''r'' ''c'' []"
  by (simp add: list_cfg_def empty_cfg_def EditEntry_def Split_def Str_def strings_Split_def
      stored_text_def Expandlist_def)

text \<open>
  C9, amended. \<open>Split\<close> always returns at least one element, and the one-element list
  of the empty string when the lookup misses and the default is empty. When none of its
  four arguments is empty, \<open>Expandlist\<close> has the empty string in its result whenever a
  listed key is absent from the target row; with an empty argument its result is
  empty.
\<close>

theorem Split_Expandlist_empty_string:
  "length (Split cfg tbln rown coln def) \<ge> 1 \<and>
   (stored_text cfg [tbln] rown coln = None \<longrightarrow> Split cfg tbln rown coln [] = [[]]) \<and>
   (blockn \<noteq> [] \<and> rown \<noteq> [] \<and> coln \<noteq> [] \<and> row2 \<noteq> [] \<and>
    key \<in> set (Split cfg blockn rown coln []) \<and> stored_text cfg [blockn] row2 key = None
      \<longrightarrow> [] \<in> Expandlist cfg blockn rown coln row2) \<and>
   (blockn = [] \<or> rown = [] \<or> coln = [] \<or> row2 = []
      \<longrightarrow> Expandlist cfg blockn rown coln row2 = {})"
proof -
  have "length (Split cfg tbln rown coln def) \<ge> 1"
    using strings_Split_nonempty [of "Str cfg tbln rown coln def" "CHR '',''"]
    by (cases "Split cfg tbln rown coln def") (simp_all add: Split_def)
  moreover have "[] \<in> Expandlist cfg blockn rown coln row2"
    if "blockn \<noteq> []" "rown \<noteq> []" "coln \<noteq> []" "row2 \<noteq> []"
      and "key \<in> set (Split cfg blockn rown coln [])"
      and "stored_text cfg [blockn] row2 key = None"
  proof -
    have "[] \<in> set (Split cfg blockn row2 key [])"
      using that(6) by (simp add: Split_miss)
    with that show ?thesis
      by (auto simp: Expandlist_def)
  qed
  moreover have "Expandlist cfg blockn rown coln row2 = {}"
    if "blockn = [] \<or> rown = [] \<or> coln = [] \<or> row2 = []"
    using that by (auto simp: Expandlist_def)
  ultimately show ?thesis
    by (simp add: Split_miss)
qed

theorem Split_Expandlist_empty_string_witness:
  "stored_text list_cfg [''t''] ''r'' ''c'' = None \<and>
   ''x'' \<in> set (Split list_cfg ''b'' ''r'' ''c'' []) \<and>
   stored_text list_cfg [''b''] ''r2'' ''x'' = None \<and>
   length (Split list_cfg ''t'' ''r'' ''c'' ''d'') \<ge> 1 \<and>
   Split list_cfg ''t'' ''r'' ''c'' [] = [[]] \<and>
   [] \<in> Expandlist list_cfg ''b'' ''r'' ''c'' ''r2'' \<and>
   Expandlist list_cfg [] ''r'' ''c'' ''r2'' = {}"
proof -
  have h: "stored_text list_cfg [''t''] ''r'' ''c'' = None"
    "''x'' \<in> set (Split list_cfg ''b'' ''r'' ''c'' [])"
    "stored_text list_cfg [''b''] ''r2'' ''x'' = None"
    by (simp_all add: list_cfg_def empty_cfg_def EditEntry_def Split_def Str_def
        strings_Split_def stored_text_def)
  show ?thesis
    using h Split_Expandlist_empty_string [of list_cfg "''t''" "''r''" "''c''" "''d''"]
      Split_Expandlist_empty_string [of list_cfg "''b''" "''r''" "''c''" "''d''" "''b''" "''r2''" "''x''"]
      Split_Expandlist_empty_string [of list_cfg "''b''" "''r''" "''c''" "''d''" "[]" "''r2''" "''x''"]
    by simp
qed

section \<open>Byte strings\<close>

lemma Index_ge: "- 1 \<le> Index s sep"
  by (induction s) (auto simp: Let_def)

lemma Index_neg: "Index s sep < 0 \<longleftrightarrow> Index s sep = - 1"
  using Index_ge [of s sep] by auto

lemma Index_char_none: "c \<notin> set s \<Longrightarrow> Index s [c] = - 1"
  by (induction s) (auto simp: Let_def)

lemma Index_char_found: "c \<notin> set p \<Longrightarrow> Index (p @ c # r) [c] = int (length p)"
  by (induction p) (auto simp: Let_def)

text \<open>
  A two-byte separator that is not found in \<open>p\<close> is not found across the seam of
  \<open>p @ s\<close> either when \<open>s\<close> does not start with its second byte.
\<close>

lemma Index_pair_append:
  assumes "Index p [a, b] < 0" "s = [] \<or> hd s \<noteq> b"
  shows "Index (p @ s) [a, b] = (if Index s [a, b] < 0 then - 1 else int (length p) + Index s [a, b])"
  using assms(1)
proof (induction p)
  case Nil
  then show ?case using Index_ge [of s "[a, b]"] by auto
next
  case (Cons x p)
  from Cons.prems have n: "take 2 (x # p) \<noteq> [a, b]" and i: "Index p [a, b] < 0"
    using Index_ge [of p "[a, b]"] by (auto simp: Let_def split: if_splits)
  have "take 2 (x # p @ s) \<noteq> [a, b]"
  proof (cases p)
    case Nil
    with assms(2) show ?thesis by (cases s) auto
  next
    case (Cons y ys)
    with n show ?thesis by auto
  qed
  with Cons.IH [OF i] show ?case by (auto simp: Let_def numeral_2_eq_2)
qed

lemma Index_neg_not_prefix: "Index (x # y # s) [a, b] < 0 \<Longrightarrow> \<not> (x = a \<and> y = b)"
  by (auto simp: Let_def split: if_splits)

lemma TrimLeft_id: "s = [] \<or> hd s \<notin> set cs \<Longrightarrow> TrimLeft s cs = s"
  by (cases s) (auto simp: TrimLeft_def)

lemma TrimRight_id: "s = [] \<or> last s \<notin> set cs \<Longrightarrow> TrimRight s cs = s"
  by (cases s rule: rev_cases) (auto simp: TrimRight_def)

lemma dropWhile_all: "set a \<subseteq> set cs \<Longrightarrow> dropWhile (\<lambda>c. c \<in> set cs) (a @ s) = dropWhile (\<lambda>c. c \<in> set cs) s"
  by (induction a) auto

lemma TrimLeft_drop: "set a \<subseteq> set cs \<Longrightarrow> TrimLeft (a @ s) cs = TrimLeft s cs"
  by (simp add: TrimLeft_def dropWhile_all)

lemma TrimRight_drop: "set b \<subseteq> set cs \<Longrightarrow> TrimRight (s @ b) cs = TrimRight s cs"
  using dropWhile_all [of "rev b" cs "rev s"] by (simp add: TrimRight_def)

lemma cleanLine_wrapped:
  assumes "set a \<subseteq> set blanks" "set b \<subseteq> set blanks" "CHR ''#'' \<notin> set s" "trimmed s"
  shows "cleanLine (a @ s @ b) = s"
proof -
  have "CHR ''#'' \<notin> set (a @ s @ b)"
    using assms(1,2,3) by (auto simp: blanks_def)
  then have i: "Index (a @ s @ b) ''#'' = - 1" by (rule Index_char_none)
  show ?thesis
  proof (cases "s = []")
    case True
    have "TrimLeft ((a @ b) @ []) blanks = TrimLeft [] blanks"
      using assms(1,2) by (intro TrimLeft_drop) auto
    then have "TrimLeft (a @ b) blanks = []" by (simp add: TrimLeft_def)
    with True show ?thesis
      using i by (simp add: cleanLine_def TrimRight_def)
  next
    case False
    with assms(4) have h: "hd s \<notin> set blanks" "last s \<notin> set blanks" by (auto simp: trimmed_def)
    have "TrimLeft (a @ s @ b) blanks = s @ b"
      using assms(1) h(1) False by (simp add: TrimLeft_drop TrimLeft_id)
    moreover have "TrimRight (s @ b) blanks = s"
      using assms(2) h(2) by (simp add: TrimRight_drop TrimRight_id)
    ultimately show ?thesis by (simp add: cleanLine_def i)
  qed
qed

lemma cleanLine_id: "CHR ''#'' \<notin> set s \<Longrightarrow> trimmed s \<Longrightarrow> cleanLine s = s"
  using cleanLine_wrapped [of "[]" "[]" s] by simp

lemma Split_from_none: "c \<notin> set p \<Longrightarrow> Split_from acc c p = [rev acc @ p]"
  by (induction p arbitrary: acc) auto

lemma Split_from_first: "c \<notin> set p \<Longrightarrow> Split_from acc c (p @ c # s) = (rev acc @ p) # Split_from [] c s"
  by (induction p arbitrary: acc) auto

lemma SplitN2_found: "c \<notin> set p \<Longrightarrow> SplitN2 (p @ c # r) c = [p, r]"
  by (simp add: SplitN2_def Index_char_found)

lemma SplitN2_none: "c \<notin> set s \<Longrightarrow> SplitN2 s c = [s]"
  by (simp add: SplitN2_def Index_char_none)

section \<open>The reading loops\<close>

lemma loadCfgFile_loop_step:
  "loadCfgFile_loop (Suc n) sys cfg fnm prev rdr =
     line_step (\<lambda>c r. Ok c) (\<lambda>c p r. loadCfgFile_loop n sys c fnm p r)
       (\<lambda>c f content. loadCfgFile_loop n sys c f [] content)
       (\<lambda>child r. loadBlock_loop n sys child fnm [] r) sys cfg fnm prev rdr"
  unfolding line_step_def by (subst loadCfgFile_loop.simps(2)) (rule refl)

lemma loadBlock_loop_step:
  "loadBlock_loop (Suc n) sys cfg fnm prev rdr =
     line_step (\<lambda>c r. Ok (c, r)) (\<lambda>c p r. loadBlock_loop n sys c fnm p r)
       (\<lambda>c f content. loadCfgFile_loop n sys c f [] content)
       (\<lambda>child r. loadBlock_loop n sys child fnm [] r) sys cfg fnm prev rdr"
  unfolding line_step_def by (subst loadBlock_loop.simps(2)) (rule refl)

lemma le_res_refl [simp]: "le_res r r"
  by (simp add: le_res_def)

lemma le_res_bot [simp]: "le_res OutOfFuel r"
  by (simp add: le_res_def)

lemma le_res_case:
  assumes "le_res r r'" "\<And>x. le_res (k x) (k' x)"
  shows "le_res (case r of OutOfFuel \<Rightarrow> OutOfFuel | Panic e \<Rightarrow> Panic e | Ok x \<Rightarrow> k x)
                (case r' of OutOfFuel \<Rightarrow> OutOfFuel | Panic e \<Rightarrow> Panic e | Ok x \<Rightarrow> k' x)"
proof (cases "r = OutOfFuel")
  case True
  then show ?thesis by simp
next
  case False
  with assms(1) have "r' = r" by (simp add: le_res_def)
  then show ?thesis using assms(2) by (cases r) simp_all
qed

lemma line_step_mono:
  assumes c: "\<And>c p r. le_res (cont c p r) (cont' c p r)"
    and f: "\<And>c f x. le_res (recF c f x) (recF' c f x)"
    and b: "\<And>c r. le_res (recB c r) (recB' c r)"
  shows "le_res (line_step ret cont recF recB sys cfg fnm prev rdr)
                (line_step ret cont' recF' recB' sys cfg fnm prev rdr)"
proof -
  obtain buf0 dn rdr' where rb: "ReadBytes rdr = (buf0, dn, rdr')"
    by (cases "ReadBytes rdr") auto
  define buf where "buf = cleanLine (butlast buf0)"
  have nx: "le_res (if dn then ret c r else cont c p r) (if dn then ret c r else cont' c p r)" for c p r
    by (simp add: c)
  consider (blank) "length buf0 < 1 \<or> length buf < 1"
    | (incl) "\<not> (length buf0 < 1 \<or> length buf < 1)" "lineIsInclude buf"
    | (bend) "\<not> (length buf0 < 1 \<or> length buf < 1)" "\<not> lineIsInclude buf" "lineIsBlockEnd buf"
    | (bnew) "\<not> (length buf0 < 1 \<or> length buf < 1)" "\<not> lineIsInclude buf" "\<not> lineIsBlockEnd buf"
        "lineIsBlockNew buf"
    | (other) "\<not> (length buf0 < 1 \<or> length buf < 1)" "\<not> lineIsInclude buf" "\<not> lineIsBlockEnd buf"
        "\<not> lineIsBlockNew buf"
    by blast
  then show ?thesis
  proof cases
    case blank
    then show ?thesis
      unfolding line_step_def rb prod.case Let_def buf_def [symmetric]
      by (auto simp: c)
  next
    case incl
    have "le_res
       (case getFilename (TrimSpace buf) of
                OutOfFuel \<Rightarrow> OutOfFuel
              | Panic e \<Rightarrow> Panic e
              | Ok f \<Rightarrow>
                   (case os_Open sys (expandUser sys f) of
                     None \<Rightarrow> Panic (''could not open file '' @ expandUser sys f)
                   | Some content \<Rightarrow>
                       (case recF cfg (expandUser sys f) content of
                          OutOfFuel \<Rightarrow> OutOfFuel
                        | Panic e \<Rightarrow> Panic e
                        | Ok cfg' \<Rightarrow>
                            if dn then ret cfg' rdr'
                            else cont cfg' prev rdr')))
       (case getFilename (TrimSpace buf) of
                OutOfFuel \<Rightarrow> OutOfFuel
              | Panic e \<Rightarrow> Panic e
              | Ok f \<Rightarrow>
                   (case os_Open sys (expandUser sys f) of
                     None \<Rightarrow> Panic (''could not open file '' @ expandUser sys f)
                   | Some content \<Rightarrow>
                       (case recF' cfg (expandUser sys f) content of
                          OutOfFuel \<Rightarrow> OutOfFuel
                        | Panic e \<Rightarrow> Panic e
                        | Ok cfg' \<Rightarrow>
                            if dn then ret cfg' rdr'
                            else cont' cfg' prev rdr')))"
    proof (cases "getFilename (TrimSpace buf)")
      case (Ok f0)
      show ?thesis
      proof (cases "os_Open sys (expandUser sys f0)")
        case None
        with Ok show ?thesis by simp
      next
        case (Some content)
        show ?thesis
          unfolding Ok Some result.case option.case
          by (rule le_res_case [OF f nx])
      qed
    qed simp_all
    with incl show ?thesis
      unfolding line_step_def rb prod.case Let_def buf_def [symmetric]
      by simp
  next
    case bend
    then show ?thesis
      unfolding line_step_def rb prod.case Let_def buf_def [symmetric]
      by simp
  next
    case bnew
    have "le_res
      (case recB (CfgBlock (getBlockname buf) fnm Map.empty Map.empty) rdr' of
                OutOfFuel \<Rightarrow> OutOfFuel
              | Panic e \<Rightarrow> Panic e
              | Ok (child, rdr'') \<Rightarrow>
                  if dn then ret (setTbl cfg (getBlockname buf) child) rdr''
                  else cont (setTbl cfg (getBlockname buf) child) prev rdr'')
      (case recB' (CfgBlock (getBlockname buf) fnm Map.empty Map.empty) rdr' of
                OutOfFuel \<Rightarrow> OutOfFuel
              | Panic e \<Rightarrow> Panic e
              | Ok (child, rdr'') \<Rightarrow>
                  if dn then ret (setTbl cfg (getBlockname buf) child) rdr''
                  else cont' (setTbl cfg (getBlockname buf) child) prev rdr'')"
      by (rule le_res_case [OF b]) (auto split: prod.split simp: c)
    with bnew show ?thesis
      unfolding line_step_def rb prod.case Let_def buf_def [symmetric]
      by simp
  next
    case other
    then show ?thesis
      unfolding line_step_def rb prod.case Let_def buf_def [symmetric]
      by (simp split: prod.split add: c)
  qed
qed

text \<open>
  From here on the equations of the two loops are unfolded only where a proof asks for
  them.
\<close>

declare loadCfgFile_loop.simps [simp del] loadBlock_loop.simps [simp del]

lemma fuel_mono_Suc:
  "le_res (loadCfgFile_loop n sys cfg fnm prev rdr) (loadCfgFile_loop (Suc n) sys cfg fnm prev rdr) \<and>
   le_res (loadBlock_loop n sys cfg fnm prev rdr) (loadBlock_loop (Suc n) sys cfg fnm prev rdr)"
proof (induction n arbitrary: sys cfg fnm prev rdr)
  case 0
  show ?case by (simp add: loadCfgFile_loop.simps loadBlock_loop.simps)
next
  case (Suc n)
  show ?case
  proof (intro conjI)
    show "le_res (loadCfgFile_loop (Suc n) sys cfg fnm prev rdr)
            (loadCfgFile_loop (Suc (Suc n)) sys cfg fnm prev rdr)"
      apply (subst loadCfgFile_loop_step [of "Suc n"])
      apply (subst loadCfgFile_loop_step [of n sys cfg fnm prev rdr])
      apply (rule line_step_mono; (rule Suc [THEN conjunct1] | rule Suc [THEN conjunct2]))
      done
    show "le_res (loadBlock_loop (Suc n) sys cfg fnm prev rdr)
            (loadBlock_loop (Suc (Suc n)) sys cfg fnm prev rdr)"
      apply (subst loadBlock_loop_step [of "Suc n"])
      apply (subst loadBlock_loop_step [of n sys cfg fnm prev rdr])
      apply (rule line_step_mono; (rule Suc [THEN conjunct1] | rule Suc [THEN conjunct2]))
      done
  qed
qed

lemma fuel_mono:
  "le_res (loadCfgFile_loop n sys cfg fnm prev rdr) (loadCfgFile_loop (n + k) sys cfg fnm prev rdr)"
  "le_res (loadBlock_loop n sys cfg fnm prev rdr) (loadBlock_loop (n + k) sys cfg fnm prev rdr)"
proof (induction k)
  case 0
  show "le_res (loadCfgFile_loop n sys cfg fnm prev rdr) (loadCfgFile_loop (n + 0) sys cfg fnm prev rdr)"
    by simp
  show "le_res (loadBlock_loop n sys cfg fnm prev rdr) (loadBlock_loop (n + 0) sys cfg fnm prev rdr)"
    by simp
next
  case (Suc k)
  show "le_res (loadCfgFile_loop n sys cfg fnm prev rdr) (loadCfgFile_loop (n + Suc k) sys cfg fnm prev rdr)"
    using Suc(1) fuel_mono_Suc [of "n + k" sys cfg fnm prev rdr]
    by (auto simp: le_res_def)
  show "le_res (loadBlock_loop n sys cfg fnm prev rdr) (loadBlock_loop (n + Suc k) sys cfg fnm prev rdr)"
    using Suc(2) fuel_mono_Suc [of "n + k" sys cfg fnm prev rdr]
    by (auto simp: le_res_def)
qed

subsection \<open>One line at a time\<close>

lemma takeWhile_upto: "c \<notin> set l \<Longrightarrow> takeWhile (\<lambda>x. x \<noteq> c) (l @ c # rest) = l"
  by (induction l) auto

lemma dropWhile_upto: "c \<notin> set l \<Longrightarrow> dropWhile (\<lambda>x. x \<noteq> c) (l @ c # rest) = c # rest"
  by (induction l) auto

lemma ReadBytes_line: "NL \<notin> set l \<Longrightarrow> ReadBytes (l @ NL # rest) = (l @ [NL], False, rest)"
  by (simp add: ReadBytes_def takeWhile_upto dropWhile_upto)

lemma ReadBytes_last: "NL \<notin> set l \<Longrightarrow> ReadBytes l = (l, True, [])"
  by (simp add: ReadBytes_def)

lemma toLowerChar_percent: "toLowerChar c = CHR ''%'' \<Longrightarrow> c = CHR ''%''"
proof (rule ccontr)
  assume a: "toLowerChar c = CHR ''%''" and n: "c \<noteq> CHR ''%''"
  then have u: "65 \<le> (of_char c :: nat)" "(of_char c :: nat) \<le> 90"
    and e: "char_of (of_char c + 32 :: nat) = CHR ''%''"
    by (auto simp: toLowerChar_def Let_def split: if_splits)
  from e have "(of_char (char_of (of_char c + 32 :: nat)) :: nat) = of_char (CHR ''%'')" by simp
  with u show False by simp
qed

lemma ToLower_percent: "ToLower x = CHR ''%'' # y \<Longrightarrow> \<exists>x'. x = CHR ''%'' # x'"
  by (cases x) (auto simp: ToLower_def dest: toLowerChar_percent)

lemma not_percent_not_block:
  assumes "s = c # r" "c \<noteq> CHR ''%''"
  shows "\<not> lineIsBlockNew s"
proof
  assume "lineIsBlockNew s"
  then have i: "0 \<le> Index s '' ''" and t: "ToLower (take (nat (Index s '' '')) s) = ''%block''"
    by (auto simp: lineIsBlockNew_def SplitN2_def Let_def split: if_splits)
  from ToLower_percent [OF t] obtain x' where "take (nat (Index s '' '')) s = CHR ''%'' # x'" by blast
  with assms show False by (cases "nat (Index s '' '')") auto
qed

text \<open>
  \<open>lineIsBlockNew\<close> in terms of the text before the first space, and what it says of a
  line that goes on after a tab.
\<close>

lemma lineIsBlockNew_split:
  "CHR '' '' \<notin> set w \<Longrightarrow> lineIsBlockNew (w @ CHR '' '' # t) \<longleftrightarrow> ToLower w = ''%block''"
  by (auto simp: lineIsBlockNew_def SplitN2_found)

lemma lineIsBlockNew_no_space: "CHR '' '' \<notin> set s \<Longrightarrow> \<not> lineIsBlockNew s"
  by (simp add: lineIsBlockNew_def SplitN2_none)

lemma ToLower_block_no_tab: "ToLower w = ''%block'' \<Longrightarrow> TAB \<notin> set w"
proof
  assume a: "ToLower w = ''%block''" and "TAB \<in> set w"
  then have "toLowerChar TAB \<in> set (ToLower w)" by (auto simp: ToLower_def)
  then show False unfolding a by (simp add: toLowerChar_def)
qed

lemma lineIsBlockNew_before_tab:
  "lineIsBlockNew (r @ TAB # y) \<longleftrightarrow> lineIsBlockNew r"
proof (cases "CHR '' '' \<in> set r")
  case True
  then obtain w t where r: "r = w @ CHR '' '' # t" "CHR '' '' \<notin> set w"
    by (auto dest: split_list_first)
  have "lineIsBlockNew (w @ CHR '' '' # (t @ TAB # y)) \<longleftrightarrow> ToLower w = ''%block''"
    by (rule lineIsBlockNew_split [OF r(2)])
  moreover have "lineIsBlockNew (w @ CHR '' '' # t) \<longleftrightarrow> ToLower w = ''%block''"
    by (rule lineIsBlockNew_split [OF r(2)])
  ultimately show ?thesis by (simp add: r(1))
next
  case False
  then have nr: "\<not> lineIsBlockNew r" by (rule lineIsBlockNew_no_space)
  have "\<not> lineIsBlockNew (r @ TAB # y)"
  proof (cases "CHR '' '' \<in> set y")
    case True
    then obtain y1 y2 where y: "y = y1 @ CHR '' '' # y2" "CHR '' '' \<notin> set y1"
      by (auto dest: split_list_first)
    have ns: "CHR '' '' \<notin> set (r @ TAB # y1)" using False y(2) by simp
    have "lineIsBlockNew ((r @ TAB # y1) @ CHR '' '' # y2) \<longleftrightarrow> ToLower (r @ TAB # y1) = ''%block''"
      by (rule lineIsBlockNew_split [OF ns])
    moreover have "ToLower (r @ TAB # y1) \<noteq> ''%block''"
      using ToLower_block_no_tab [of "r @ TAB # y1"] by auto
    ultimately show ?thesis by (simp add: y(1))
  next
    case False
    with \<open>CHR '' '' \<notin> set r\<close> have "CHR '' '' \<notin> set (r @ TAB # y)" by simp
    then show ?thesis by (rule lineIsBlockNew_no_space)
  qed
  with nr show ?thesis by simp
qed

lemma lineIsInclude_before_tab:
  assumes "take 8 r \<noteq> ''%include''"
  shows "\<not> lineIsInclude (r @ TAB # y)"
proof (cases "8 \<le> length r")
  case True
  with assms show ?thesis by (simp add: lineIsInclude_def)
next
  case False
  then obtain k where k: "8 - length r = Suc k" by (cases "8 - length r") auto
  have a: "take 8 r = r" using False by (intro take_all) simp
  have e: "take 8 (r @ TAB # y) = r @ TAB # take k y"
    by (simp only: take_append a k take_Suc_Cons)
  show ?thesis
  proof
    assume "lineIsInclude (r @ TAB # y)"
    then have "''%include'' = take 8 (r @ TAB # y)" unfolding lineIsInclude_def by blast
    then have eq: "''%include'' = r @ TAB # take k y" unfolding e .
    have "TAB \<in> set ''%include''" unfolding in_set_conv_decomp using eq by blast
    then show False by simp
  qed
qed

text \<open>A line that is neither a directive nor a brace nor a continuation is a row line.\<close>

lemma loadBlock_loop_row_line:
  assumes "NL \<notin> set l" and "cleanLine l = s" and "s \<noteq> []"
    and "\<not> lineIsInclude s" and "\<not> lineIsBlockEnd s" and "\<not> lineIsBlockNew s"
    and "\<not> (length s > 2 \<and> s ! 0 = CHR ''+'' \<and> s ! 1 = CHR ''='')"
    and "s ! 0 \<noteq> CHR ''{''"
    and "loadRow cfg s [] = (cfg', p')"
  shows "loadBlock_loop (Suc n) sys cfg fnm prev (l @ NL # rest) = loadBlock_loop n sys cfg' fnm p' rest"
proof -
  have 0: "\<not> length s < 1" using assms(3) by (cases s) auto
  have 5: "\<not> (length s > 0 \<and> s ! 0 = CHR ''{'')" using assms(8) by simp
  show ?thesis
    apply (subst loadBlock_loop.simps(2))
    apply (simp only: ReadBytes_line [OF assms(1)] prod.case butlast_snoc assms(2) Let_def 0
        assms(4,5,6,7) 5 assms(9) if_False)
    apply simp
    done
qed

lemma blank_line_skipped:
  assumes "NL \<notin> set l" "cleanLine l = []"
  shows "loadBlock_loop (Suc n) sys cfg fnm prev (l @ NL # rest) = loadBlock_loop n sys cfg fnm prev rest"
    and "loadCfgFile_loop (Suc n) sys cfg fnm prev (l @ NL # rest) = loadCfgFile_loop n sys cfg fnm prev rest"
  using assms by (simp_all add: ReadBytes_line loadBlock_loop.simps loadCfgFile_loop.simps)

lemma brace_line_skipped:
  assumes "NL \<notin> set l" "cleanLine l = CHR ''{'' # x"
  shows "loadBlock_loop (Suc n) sys cfg fnm prev (l @ NL # rest) = loadBlock_loop n sys cfg fnm prev rest"
    and "loadCfgFile_loop (Suc n) sys cfg fnm prev (l @ NL # rest) = loadCfgFile_loop n sys cfg fnm prev rest"
proof -
  have 1: "\<not> lineIsInclude (cleanLine l)" by (simp add: assms(2) lineIsInclude_def)
  have 2: "\<not> lineIsBlockEnd (cleanLine l)" by (simp add: assms(2) lineIsBlockEnd_def)
  have 3: "\<not> lineIsBlockNew (cleanLine l)"
    by (rule not_percent_not_block [OF assms(2)]) simp
  show "loadBlock_loop (Suc n) sys cfg fnm prev (l @ NL # rest) = loadBlock_loop n sys cfg fnm prev rest"
    using assms(1) 1 2 3
    by (simp add: ReadBytes_line loadBlock_loop.simps loadCfgFile_loop.simps) (simp add: assms(2))
  show "loadCfgFile_loop (Suc n) sys cfg fnm prev (l @ NL # rest) = loadCfgFile_loop n sys cfg fnm prev rest"
    using assms(1) 1 2 3
    by (simp add: ReadBytes_line loadBlock_loop.simps loadCfgFile_loop.simps) (simp add: assms(2))
qed

lemma block_end_returns:
  assumes "NL \<notin> set l" "cleanLine l = CHR ''}'' # x"
  shows "loadBlock_loop (Suc n) sys cfg fnm prev (l @ NL # rest) = Ok (cfg, rest)"
    and "loadCfgFile_loop (Suc n) sys cfg fnm prev (l @ NL # rest) = Ok cfg"
proof -
  have 1: "\<not> lineIsInclude (cleanLine l)" by (simp add: assms(2) lineIsInclude_def)
  have 2: "lineIsBlockEnd (cleanLine l)" by (simp add: assms(2) lineIsBlockEnd_def)
  show "loadBlock_loop (Suc n) sys cfg fnm prev (l @ NL # rest) = Ok (cfg, rest)"
    using assms(1) 1 2
    by (simp add: ReadBytes_line loadBlock_loop.simps loadCfgFile_loop.simps) (simp add: assms(2))
  show "loadCfgFile_loop (Suc n) sys cfg fnm prev (l @ NL # rest) = Ok cfg"
    using assms(1) 1 2
    by (simp add: ReadBytes_line loadBlock_loop.simps loadCfgFile_loop.simps) (simp add: assms(2))
qed

lemma end_of_file:
  "loadBlock_loop (Suc n) sys cfg fnm prev [] = Ok (cfg, [])"
  "loadCfgFile_loop (Suc n) sys cfg fnm prev [] = Ok cfg"
  by (simp_all add: ReadBytes_def loadBlock_loop.simps loadCfgFile_loop.simps)

lemma header_line_facts:
  assumes "block_name_ok b"
  shows "NL \<notin> set (''%block '' @ b)"
    and "cleanLine (''%block '' @ b) = ''%block '' @ b"
    and "\<not> lineIsInclude (''%block '' @ b)"
    and "\<not> lineIsBlockEnd (''%block '' @ b)"
    and "lineIsBlockNew (''%block '' @ b)"
    and "getBlockname (''%block '' @ b) = b"
proof -
  have b: "b \<noteq> []" "NL \<notin> set b" "CHR ''#'' \<notin> set b" "trimmed b"
    using assms by (auto simp: block_name_ok_def plain_text_def)
  show "NL \<notin> set (''%block '' @ b)" using b by simp
  have "trimmed (''%block '' @ b)" using b by (simp add: trimmed_def blanks_def)
  then show "cleanLine (''%block '' @ b) = ''%block '' @ b"
    using b by (intro cleanLine_id) simp_all
  show "\<not> lineIsInclude (''%block '' @ b)" by (simp add: lineIsInclude_def)
  show "\<not> lineIsBlockEnd (''%block '' @ b)" by (simp add: lineIsBlockEnd_def)
  have sp: "SplitN2 (''%block'' @ CHR '' '' # b) (CHR '' '') = [''%block'', b]"
    by (rule SplitN2_found) simp
  have lo: "ToLower ''%block'' = ''%block''" by (simp add: ToLower_def toLowerChar_def)
  from sp have sp': "SplitN2 (''%block '' @ b) (CHR '' '') = [''%block'', b]" by simp
  show "lineIsBlockNew (''%block '' @ b)"
    unfolding lineIsBlockNew_def sp' by (simp add: lo)
  show "getBlockname (''%block '' @ b) = b"
    unfolding getBlockname_def sp' using b by (simp add: lo cleanLine_id)
qed

lemma header_line_opens_block:
  assumes "block_name_ok b"
  shows "loadCfgFile_loop (Suc n) sys cfg fnm prev ((''%block '' @ b) @ NL # rest) =
           (case loadBlock_loop n sys (CfgBlock b fnm Map.empty Map.empty) fnm [] rest of
              OutOfFuel \<Rightarrow> OutOfFuel
            | Panic e \<Rightarrow> Panic e
            | Ok (child, rdr'') \<Rightarrow> loadCfgFile_loop n sys (setTbl cfg b child) fnm prev rdr'')"
    and "loadBlock_loop (Suc n) sys cfg fnm prev ((''%block '' @ b) @ NL # rest) =
           (case loadBlock_loop n sys (CfgBlock b fnm Map.empty Map.empty) fnm [] rest of
              OutOfFuel \<Rightarrow> OutOfFuel
            | Panic e \<Rightarrow> Panic e
            | Ok (child, rdr'') \<Rightarrow> loadBlock_loop n sys (setTbl cfg b child) fnm prev rdr'')"
proof -
  note f = header_line_facts [OF assms]
  show "loadCfgFile_loop (Suc n) sys cfg fnm prev ((''%block '' @ b) @ NL # rest) =
           (case loadBlock_loop n sys (CfgBlock b fnm Map.empty Map.empty) fnm [] rest of
              OutOfFuel \<Rightarrow> OutOfFuel
            | Panic e \<Rightarrow> Panic e
            | Ok (child, rdr'') \<Rightarrow> loadCfgFile_loop n sys (setTbl cfg b child) fnm prev rdr'')"
    apply (subst loadCfgFile_loop.simps(2))
    apply (simp only: ReadBytes_line [OF f(1)] prod.case butlast_snoc f Let_def)
    apply (simp split: result.splits)
    done
  show "loadBlock_loop (Suc n) sys cfg fnm prev ((''%block '' @ b) @ NL # rest) =
           (case loadBlock_loop n sys (CfgBlock b fnm Map.empty Map.empty) fnm [] rest of
              OutOfFuel \<Rightarrow> OutOfFuel
            | Panic e \<Rightarrow> Panic e
            | Ok (child, rdr'') \<Rightarrow> loadBlock_loop n sys (setTbl cfg b child) fnm prev rdr'')"
    apply (subst loadBlock_loop.simps(2))
    apply (simp only: ReadBytes_line [OF f(1)] prod.case butlast_snoc f Let_def)
    apply (simp split: result.splits)
    done
qed

section \<open>Rows\<close>

text \<open>
  C2, evaluated on the code. The claim: in a line with both \<^verbatim>\<open>::\<close> and \<^verbatim>\<open>+=\<close> the
  token that comes first decides; \<^verbatim>\<open>+=\<close> first merges the columns into the row
  named before it, \<^verbatim>\<open>::\<close> first defines the row anew. The code sets its \<open>add\<close>
  flag the other way round in this branch. In block \<open>t\<close> the row \<open>r\<close> has the
  column \<open>a\<close>. After the line \<^verbatim>\<open>r += b=2; c=x::y;\<close> the column \<open>a\<close> is gone: the
  row was replaced. After the line \<^verbatim>\<open>r :: b=2; c=x+=y;\<close> the column \<open>a\<close> is still
  there: the columns were merged.
\<close>

theorem both_tokens_flag_swapped:
  "(case loadCfgFile 6 no_files empty_cfg ''f''
          (lines_text [''%block t'', ''{'', ''r :: a=1;'', ''r += b=2; c=x::y;'', ''}''])
      of Ok cfg \<Rightarrow> [Str cfg ''t'' ''r'' ''a'' ''-'', Str cfg ''t'' ''r'' ''b'' ''-'', Str cfg ''t'' ''r'' ''c'' ''-'']
       | _ \<Rightarrow> []) = [''-'', ''2'', ''x::y''] \<and>
   (case loadCfgFile 6 no_files empty_cfg ''f''
          (lines_text [''%block t'', ''{'', ''r :: a=1;'', ''r :: b=2; c=x+=y;'', ''}''])
      of Ok cfg \<Rightarrow> [Str cfg ''t'' ''r'' ''a'' ''-'', Str cfg ''t'' ''r'' ''b'' ''-'', Str cfg ''t'' ''r'' ''c'' ''-'']
       | _ \<Rightarrow> []) = [''1'', ''2'', ''x+=y'']"
  by code_simp

text \<open>
  C6. Take any block, whatever it holds. When the lines \<^verbatim>\<open>name :: a=1;\<close> and
  \<^verbatim>\<open>+= b=2;\<close> are read in its scope and the scope ends (at the closing brace for
  \<open>loadBlock\<close>, at the end of the file for \<open>loadCfgFile\<close>), the load returns the block
  with one row \<open>name\<close> that has exactly the columns \<open>a = 1\<close> and \<open>b = 2\<close>; every
  other row and the nested blocks are as they were (\<open>setRow\<close> changes the row map at
  \<open>name\<close> only), and \<open>loadBlock\<close> hands back the text after the brace. When the
  line \<^verbatim>\<open>name :: c=3;\<close> comes after the two, the row returned has the column \<open>c\<close>
  alone: the row was replaced, not merged into. Inside a longer scope the lines take the
  loop from any state to the state with that row stored and \<open>name\<close> as the row to
  continue. In general a line in which \<^verbatim>\<open>::\<close> is found after the first character and
  \<^verbatim>\<open>+=\<close> is not found stores under the row name a row whose columns are those
  parsed from the line and no others, whatever the row held before.
\<close>

theorem row_continuation_and_redefinition:
  "loadBlock (Suc (Suc (Suc n))) sys cfg fnm
       (''name :: a=1;'' @ NL # ''+= b=2;'' @ NL # ''}'' @ NL # rest)
     = Ok (setRow cfg ''name'' \<lparr>row_name = ''name'', cols = [''a'' \<mapsto> ''1'', ''b'' \<mapsto> ''2'']\<rparr>, rest) \<and>
   loadBlock (Suc (Suc (Suc (Suc n)))) sys cfg fnm
       (''name :: a=1;'' @ NL # ''+= b=2;'' @ NL # ''name :: c=3;'' @ NL # ''}'' @ NL # rest)
     = Ok (setRow cfg ''name'' \<lparr>row_name = ''name'', cols = [''c'' \<mapsto> ''3'']\<rparr>, rest) \<and>
   loadCfgFile (Suc (Suc (Suc n))) sys cfg fnm (''name :: a=1;'' @ NL # ''+= b=2;'' @ [NL])
     = Ok (setRow cfg ''name'' \<lparr>row_name = ''name'', cols = [''a'' \<mapsto> ''1'', ''b'' \<mapsto> ''2'']\<rparr>) \<and>
   loadCfgFile (Suc (Suc (Suc (Suc n)))) sys cfg fnm
       (''name :: a=1;'' @ NL # ''+= b=2;'' @ NL # ''name :: c=3;'' @ [NL])
     = Ok (setRow cfg ''name'' \<lparr>row_name = ''name'', cols = [''c'' \<mapsto> ''3'']\<rparr>) \<and>
   loadBlock_loop (Suc (Suc n)) sys cfg fnm prev (''name :: a=1;'' @ NL # ''+= b=2;'' @ NL # rest)
     = loadBlock_loop n sys
         (setRow cfg ''name'' \<lparr>row_name = ''name'', cols = [''a'' \<mapsto> ''1'', ''b'' \<mapsto> ''2'']\<rparr>)
         fnm ''name'' rest \<and>
   loadBlock_loop (Suc (Suc (Suc n))) sys cfg fnm prev
       (''name :: a=1;'' @ NL # ''+= b=2;'' @ NL # ''name :: c=3;'' @ NL # rest)
     = loadBlock_loop n sys
         (setRow cfg ''name'' \<lparr>row_name = ''name'', cols = [''c'' \<mapsto> ''3'']\<rparr>)
         fnm ''name'' rest \<and>
   (0 < Index (cleanLine line) ''::'' \<and> Index (cleanLine line) ''+='' < 0 \<longrightarrow>
      loadRow cfg line [] =
        (let l = cleanLine line;
             rn = cleanLine (take (nat (Index l ''::'')) l);
             data = cleanLine (drop (nat (Index l ''::'') + 2) l)
         in (setRow cfg rn
               \<lparr>row_name = rn, cols = loadCols Map.empty (strings_Split data (CHR '';''))\<rparr>, rn)))"
proof -
  let ?ab = "\<lparr>row_name = ''name'', cols = [''a'' \<mapsto> ''1'', ''b'' \<mapsto> ''2'']\<rparr>"
  let ?c = "\<lparr>row_name = ''name'', cols = [''c'' \<mapsto> ''3'']\<rparr>"
  have two: "loadBlock_loop (Suc (Suc m)) sys c fnm p (''name :: a=1;'' @ NL # ''+= b=2;'' @ NL # r)
     = loadBlock_loop m sys (setRow c ''name'' ?ab) fnm ''name'' r" for m c p r
    by (simp add: loadBlock_loop.simps ReadBytes_def Let_def cleanLine_def TrimLeft_def TrimRight_def blanks_def
        lineIsInclude_def lineIsBlockEnd_def lineIsBlockNew_def SplitN2_def ToLower_def
        toLowerChar_def loadRow_def storeRow_def strings_Split_def setRow_def
        split: option.splits)
  have three: "loadBlock_loop (Suc m) sys c fnm p (''name :: c=3;'' @ NL # r)
     = loadBlock_loop m sys (setRow c ''name'' ?c) fnm ''name'' r" for m c p r
    by (simp add: loadBlock_loop.simps ReadBytes_def Let_def cleanLine_def TrimLeft_def TrimRight_def blanks_def
        lineIsInclude_def lineIsBlockEnd_def lineIsBlockNew_def SplitN2_def ToLower_def
        toLowerChar_def loadRow_def storeRow_def strings_Split_def setRow_def
        split: option.splits)
  have two_file: "loadCfgFile_loop (Suc (Suc m)) sys c fnm p (''name :: a=1;'' @ NL # ''+= b=2;'' @ NL # r)
     = loadCfgFile_loop m sys (setRow c ''name'' ?ab) fnm ''name'' r" for m c p r
    by (simp add: loadCfgFile_loop.simps ReadBytes_def Let_def cleanLine_def TrimLeft_def TrimRight_def blanks_def
        lineIsInclude_def lineIsBlockEnd_def lineIsBlockNew_def SplitN2_def ToLower_def
        toLowerChar_def loadRow_def storeRow_def strings_Split_def setRow_def
        split: option.splits)
  have three_file: "loadCfgFile_loop (Suc m) sys c fnm p (''name :: c=3;'' @ NL # r)
     = loadCfgFile_loop m sys (setRow c ''name'' ?c) fnm ''name'' r" for m c p r
    by (simp add: loadCfgFile_loop.simps ReadBytes_def Let_def cleanLine_def TrimLeft_def TrimRight_def blanks_def
        lineIsInclude_def lineIsBlockEnd_def lineIsBlockNew_def SplitN2_def ToLower_def
        toLowerChar_def loadRow_def storeRow_def strings_Split_def setRow_def
        split: option.splits)
  have over: "setRow (setRow c ''name'' ?ab) ''name'' ?c = setRow c ''name'' ?c" for c
    by (simp add: setRow_def)
  have brace: "loadBlock_loop (Suc m) sys c fnm p (''}'' @ NL # r) = Ok (c, r)" for m c p r
    by (rule block_end_returns(1) [where x = "[]"]) (simp_all add: cleanLine_id trimmed_def blanks_def)
  have 1: "loadBlock (Suc (Suc (Suc n))) sys cfg fnm
       (''name :: a=1;'' @ NL # ''+= b=2;'' @ NL # ''}'' @ NL # rest)
     = Ok (setRow cfg ''name'' ?ab, rest)"
    unfolding loadBlock_def two by (rule brace)
  have 2: "loadBlock (Suc (Suc (Suc (Suc n)))) sys cfg fnm
       (''name :: a=1;'' @ NL # ''+= b=2;'' @ NL # ''name :: c=3;'' @ NL # ''}'' @ NL # rest)
     = Ok (setRow cfg ''name'' ?c, rest)"
    unfolding loadBlock_def two three over by (rule brace)
  have 3: "loadCfgFile (Suc (Suc (Suc n))) sys cfg fnm (''name :: a=1;'' @ NL # ''+= b=2;'' @ [NL])
     = Ok (setRow cfg ''name'' ?ab)"
    using two_file [of "Suc n" cfg "[]" "[]"] by (simp add: loadCfgFile_def end_of_file)
  have "loadCfgFile_loop (Suc (Suc (Suc (Suc n)))) sys cfg fnm []
       (''name :: a=1;'' @ NL # ''+= b=2;'' @ NL # ''name :: c=3;'' @ NL # [])
     = Ok (setRow cfg ''name'' ?c)"
    unfolding two_file three_file over by (rule end_of_file)
  then have 4: "loadCfgFile (Suc (Suc (Suc (Suc n)))) sys cfg fnm
       (''name :: a=1;'' @ NL # ''+= b=2;'' @ NL # ''name :: c=3;'' @ [NL])
     = Ok (setRow cfg ''name'' ?c)"
    by (simp add: loadCfgFile_def)
  have 5: "loadBlock_loop (Suc (Suc n)) sys cfg fnm prev (''name :: a=1;'' @ NL # ''+= b=2;'' @ NL # rest)
     = loadBlock_loop n sys (setRow cfg ''name'' ?ab) fnm ''name'' rest"
    by (rule two)
  have 6: "loadBlock_loop (Suc (Suc (Suc n))) sys cfg fnm prev
       (''name :: a=1;'' @ NL # ''+= b=2;'' @ NL # ''name :: c=3;'' @ NL # rest)
     = loadBlock_loop n sys (setRow cfg ''name'' ?c) fnm ''name'' rest"
    unfolding two three over ..
  have 7: "0 < Index (cleanLine line) ''::'' \<and> Index (cleanLine line) ''+='' < 0 \<longrightarrow>
      loadRow cfg line [] =
        (let l = cleanLine line;
             rn = cleanLine (take (nat (Index l ''::'')) l);
             data = cleanLine (drop (nat (Index l ''::'') + 2) l)
         in (setRow cfg rn
               \<lparr>row_name = rn, cols = loadCols Map.empty (strings_Split data (CHR '';''))\<rparr>, rn))"
    by (simp add: loadRow_def Let_def storeRow_def setRow_def split: option.splits)
  from 1 2 3 4 5 6 7 show ?thesis by (intro conjI)
qed

text \<open>
  The same on a block that has rows already: the row \<open>r\<close> of \<open>abc_cfg\<close> is still
  there after the load, next to the new row.
\<close>

theorem row_continuation_and_redefinition_witness:
  "0 < Index (cleanLine ''name :: c=3;'') ''::'' \<and> Index (cleanLine ''name :: c=3;'') ''+='' < 0 \<and>
   loadRow abc_cfg ''name :: c=3;'' [] =
     (setRow abc_cfg ''name'' \<lparr>row_name = ''name'', cols = [''c'' \<mapsto> ''3'']\<rparr>, ''name'') \<and>
   (case loadBlock 3 no_files abc_cfg ''f'' (lines_text [''name :: a=1;'', ''+= b=2;'', ''}''])
      of Ok (cfg, rest) \<Rightarrow>
           [SelfStr cfg ''name'' ''a'' ''-'', SelfStr cfg ''name'' ''b'' ''-'',
            SelfStr cfg ''name'' ''c'' ''-'', SelfStr cfg ''r'' ''c'' ''-'']
       | _ \<Rightarrow> []) = [''1'', ''2'', ''-'', ''abc''] \<and>
   (case loadBlock 4 no_files abc_cfg ''f''
           (lines_text [''name :: a=1;'', ''+= b=2;'', ''name :: c=3;'', ''}''])
      of Ok (cfg, rest) \<Rightarrow>
           [SelfStr cfg ''name'' ''a'' ''-'', SelfStr cfg ''name'' ''b'' ''-'',
            SelfStr cfg ''name'' ''c'' ''-'', SelfStr cfg ''r'' ''c'' ''-'']
       | _ \<Rightarrow> []) = [''-'', ''-'', ''3'', ''abc'']"
proof -
  have c: "cleanLine ''name :: c=3;'' = ''name :: c=3;''"
    by (simp add: cleanLine_def TrimLeft_def TrimRight_def blanks_def)
  have h: "0 < Index (cleanLine ''name :: c=3;'') ''::'' \<and> Index (cleanLine ''name :: c=3;'') ''+='' < 0"
    unfolding c by simp
  note t = row_continuation_and_redefinition [of 0 no_files abc_cfg "''f''" "[]" "[]" "''name :: c=3;''"]
  have r: "loadRow abc_cfg ''name :: c=3;'' [] =
     (setRow abc_cfg ''name'' \<lparr>row_name = ''name'', cols = [''c'' \<mapsto> ''3'']\<rparr>, ''name'')"
    using h t unfolding c
    by (simp add: Let_def cleanLine_def TrimLeft_def TrimRight_def blanks_def strings_Split_def
        SplitN2_def)
  have b1: "loadBlock 3 no_files abc_cfg ''f'' (lines_text [''name :: a=1;'', ''+= b=2;'', ''}''])
     = Ok (setRow abc_cfg ''name'' \<lparr>row_name = ''name'', cols = [''a'' \<mapsto> ''1'', ''b'' \<mapsto> ''2'']\<rparr>, [])"
    using t [THEN conjunct1] by (simp add: lines_text_def numeral_3_eq_3)
  have b2: "loadBlock 4 no_files abc_cfg ''f''
           (lines_text [''name :: a=1;'', ''+= b=2;'', ''name :: c=3;'', ''}''])
     = Ok (setRow abc_cfg ''name'' \<lparr>row_name = ''name'', cols = [''c'' \<mapsto> ''3'']\<rparr>, [])"
    using t [THEN conjunct2, THEN conjunct1] by (simp add: lines_text_def eval_nat_numeral)
  show ?thesis
    unfolding b1 b2 using h r
    by (simp add: SelfStr_def setRow_def abc_cfg_def abc_row_def)
qed

section \<open>Blocks\<close>

text \<open>
  C7, as the claim states it: the line after a \<^verbatim>\<open>%block\<close> line is skipped whatever it
  holds. It fails: a row line right after \<^verbatim>\<open>%block t\<close> is loaded as a row of \<open>t\<close>;
  were it skipped, the block would be as in the file without that line, where the
  lookup misses.
\<close>

theorem line_after_block_header_counterexample:
  "Str (file_tree (loadCfgFile 5 no_files empty_cfg ''f''
          (lines_text [''%block t'', ''r :: a=1;'', ''}''])))
      ''t'' ''r'' ''a'' ''-'' = ''1'' \<and>
   Str (file_tree (loadCfgFile 5 no_files empty_cfg ''f''
          (lines_text [''%block t'', ''}''])))
      ''t'' ''r'' ''a'' ''-'' = ''-''"
  by code_simp

text \<open>
  C7, amended. After a \<^verbatim>\<open>%block\<close> line with a name the format can hold, the loader
  allocates the block and runs the loop of the new block on the text that follows,
  starting at the very next line, which is classified like every other line of the
  block; when that loop returns, the enclosing scope goes on with the text left over. A
  line that begins with \<^verbatim>\<open>{\<close> is skipped, in any scope and whatever follows the brace,
  and a line that begins with \<^verbatim>\<open>}\<close> ends the scope of the block.
\<close>

theorem block_header_opens_scope:
  "(block_name_ok b \<longrightarrow>
      loadCfgFile_loop (Suc n) sys cfg fnm prev ((''%block '' @ b) @ NL # rest) =
        (case loadBlock_loop n sys (CfgBlock b fnm Map.empty Map.empty) fnm [] rest of
           OutOfFuel \<Rightarrow> OutOfFuel
         | Panic e \<Rightarrow> Panic e
         | Ok (child, rdr'') \<Rightarrow> loadCfgFile_loop n sys (setTbl cfg b child) fnm prev rdr'') \<and>
      loadBlock_loop (Suc n) sys cfg fnm prev ((''%block '' @ b) @ NL # rest) =
        (case loadBlock_loop n sys (CfgBlock b fnm Map.empty Map.empty) fnm [] rest of
           OutOfFuel \<Rightarrow> OutOfFuel
         | Panic e \<Rightarrow> Panic e
         | Ok (child, rdr'') \<Rightarrow> loadBlock_loop n sys (setTbl cfg b child) fnm prev rdr'')) \<and>
   (NL \<notin> set l \<and> cleanLine l \<noteq> [] \<and> hd (cleanLine l) = CHR ''{'' \<longrightarrow>
      loadBlock_loop (Suc n) sys cfg fnm prev (l @ NL # rest) = loadBlock_loop n sys cfg fnm prev rest \<and>
      loadCfgFile_loop (Suc n) sys cfg fnm prev (l @ NL # rest) = loadCfgFile_loop n sys cfg fnm prev rest) \<and>
   (NL \<notin> set l' \<and> cleanLine l' \<noteq> [] \<and> hd (cleanLine l') = CHR ''}'' \<longrightarrow>
      loadBlock_loop (Suc n) sys cfg fnm prev (l' @ NL # rest) = Ok (cfg, rest))"
proof (intro conjI impI)
  assume b: "block_name_ok b"
  show "loadCfgFile_loop (Suc n) sys cfg fnm prev ((''%block '' @ b) @ NL # rest) =
        (case loadBlock_loop n sys (CfgBlock b fnm Map.empty Map.empty) fnm [] rest of
           OutOfFuel \<Rightarrow> OutOfFuel
         | Panic e \<Rightarrow> Panic e
         | Ok (child, rdr'') \<Rightarrow> loadCfgFile_loop n sys (setTbl cfg b child) fnm prev rdr'')"
    by (rule header_line_opens_block(1) [OF b])
  show "loadBlock_loop (Suc n) sys cfg fnm prev ((''%block '' @ b) @ NL # rest) =
        (case loadBlock_loop n sys (CfgBlock b fnm Map.empty Map.empty) fnm [] rest of
           OutOfFuel \<Rightarrow> OutOfFuel
         | Panic e \<Rightarrow> Panic e
         | Ok (child, rdr'') \<Rightarrow> loadBlock_loop n sys (setTbl cfg b child) fnm prev rdr'')"
    by (rule header_line_opens_block(2) [OF b])
next
  assume a: "NL \<notin> set l \<and> cleanLine l \<noteq> [] \<and> hd (cleanLine l) = CHR ''{''"
  then obtain x where x: "cleanLine l = CHR ''{'' # x" by (cases "cleanLine l") auto
  from a have nl: "NL \<notin> set l" by simp
  show "loadBlock_loop (Suc n) sys cfg fnm prev (l @ NL # rest) = loadBlock_loop n sys cfg fnm prev rest"
    by (rule brace_line_skipped(1) [OF nl x])
  show "loadCfgFile_loop (Suc n) sys cfg fnm prev (l @ NL # rest) = loadCfgFile_loop n sys cfg fnm prev rest"
    by (rule brace_line_skipped(2) [OF nl x])
next
  assume a: "NL \<notin> set l' \<and> cleanLine l' \<noteq> [] \<and> hd (cleanLine l') = CHR ''}''"
  then obtain x where x: "cleanLine l' = CHR ''}'' # x" by (cases "cleanLine l'") auto
  from a have nl: "NL \<notin> set l'" by simp
  show "loadBlock_loop (Suc n) sys cfg fnm prev (l' @ NL # rest) = Ok (cfg, rest)"
    by (rule block_end_returns(1) [OF nl x])
qed

theorem block_header_opens_scope_witness:
  "block_name_ok ''t'' \<and>
   NL \<notin> set ''{ # open'' \<and> cleanLine ''{ # open'' \<noteq> [] \<and> hd (cleanLine ''{ # open'') = CHR ''{'' \<and>
   NL \<notin> set ''}'' \<and> cleanLine ''}'' \<noteq> [] \<and> hd (cleanLine ''}'') = CHR ''}'' \<and>
   loadCfgFile_loop (Suc 3) no_files empty_cfg ''f'' [] ((''%block '' @ ''t'') @ NL # ''}'' @ [NL]) =
     (case loadBlock_loop 3 no_files (CfgBlock ''t'' ''f'' Map.empty Map.empty) ''f'' [] (''}'' @ [NL]) of
        OutOfFuel \<Rightarrow> OutOfFuel
      | Panic e \<Rightarrow> Panic e
      | Ok (child, rdr'') \<Rightarrow> loadCfgFile_loop 3 no_files (setTbl empty_cfg ''t'' child) ''f'' [] rdr'') \<and>
   loadBlock_loop (Suc 3) no_files empty_cfg ''f'' [] (''{ # open'' @ NL # ''}'' @ [NL])
     = loadBlock_loop 3 no_files empty_cfg ''f'' [] (''}'' @ [NL]) \<and>
   loadBlock_loop (Suc 3) no_files empty_cfg ''f'' [] (''}'' @ NL # ''}'' @ [NL])
     = Ok (empty_cfg, ''}'' @ [NL])"
proof -
  have h: "block_name_ok ''t''"
    "NL \<notin> set ''{ # open'' \<and> cleanLine ''{ # open'' \<noteq> [] \<and> hd (cleanLine ''{ # open'') = CHR ''{''"
    "NL \<notin> set ''}'' \<and> cleanLine ''}'' \<noteq> [] \<and> hd (cleanLine ''}'') = CHR ''}''"
    by (simp_all add: block_name_ok_def plain_text_def trimmed_def blanks_def cleanLine_def
        TrimLeft_def TrimRight_def)
  show ?thesis
    using h block_header_opens_scope [of "''t''" 3 no_files empty_cfg "''f''" "[]" "''}'' @ [NL]"
        "''{ # open''" "''}''"]
    by simp
qed

section \<open>Files that cannot be opened\<close>

text \<open>
  C5. \<open>NewCfg\<close> panics when the top-level file cannot be opened. Either loop panics
  when the line it reads is an \<^verbatim>\<open>%include\<close> line for a file that cannot be opened,
  whatever the block holds by then and whatever text follows. A panic raised while an
  included file or a nested block is loaded is the outcome of the loop that asked for
  it, and a panic of the load is the outcome of \<open>NewCfg\<close>: the outcome is the panic
  alone, with no tree.
\<close>

theorem missing_file_panics:
  "(cfgs w nm = None \<and> os_Open sys (expandUser sys path) = None \<longrightarrow>
      NewCfg n sys w nm path = Panic (''could not open file '' @ expandUser sys path)) \<and>
   (cfgs w nm = None \<and> os_Open sys (expandUser sys path) = Some text \<and>
    loadCfgFile n sys (CfgBlock nm (expandUser sys path) Map.empty Map.empty) (expandUser sys path) text
      = Panic e \<longrightarrow>
      NewCfg n sys w nm path = Panic e) \<and>
   (ReadBytes rdr = (buf0, dn, rdr') \<and> lineIsInclude (cleanLine (butlast buf0)) \<and>
    getFilename (TrimSpace (cleanLine (butlast buf0))) = Ok f \<and>
    os_Open sys (expandUser sys f) = None \<longrightarrow>
      loadCfgFile_loop (Suc n) sys cfg fnm prev rdr = Panic (''could not open file '' @ expandUser sys f) \<and>
      loadBlock_loop (Suc n) sys cfg fnm prev rdr = Panic (''could not open file '' @ expandUser sys f)) \<and>
   (ReadBytes rdr = (buf0, dn, rdr') \<and> lineIsInclude (cleanLine (butlast buf0)) \<and>
    getFilename (TrimSpace (cleanLine (butlast buf0))) = Ok f \<and>
    os_Open sys (expandUser sys f) = Some text \<and>
    loadCfgFile n sys cfg (expandUser sys f) text = Panic e \<longrightarrow>
      loadCfgFile_loop (Suc n) sys cfg fnm prev rdr = Panic e \<and>
      loadBlock_loop (Suc n) sys cfg fnm prev rdr = Panic e) \<and>
   (ReadBytes rdr = (buf0, dn, rdr') \<and> cleanLine (butlast buf0) \<noteq> [] \<and>
    \<not> lineIsInclude (cleanLine (butlast buf0)) \<and> \<not> lineIsBlockEnd (cleanLine (butlast buf0)) \<and>
    lineIsBlockNew (cleanLine (butlast buf0)) \<and>
    loadBlock n sys (CfgBlock (getBlockname (cleanLine (butlast buf0))) fnm Map.empty Map.empty) fnm rdr'
      = Panic e \<longrightarrow>
      loadCfgFile_loop (Suc n) sys cfg fnm prev rdr = Panic e \<and>
      loadBlock_loop (Suc n) sys cfg fnm prev rdr = Panic e)"
proof (intro conjI impI; (elim conjE)?)
  assume "cfgs w nm = None" "os_Open sys (expandUser sys path) = None"
  then show "NewCfg n sys w nm path = Panic (''could not open file '' @ expandUser sys path)"
    by (simp add: NewCfg_def Let_def)
next
  assume "cfgs w nm = None" "os_Open sys (expandUser sys path) = Some text"
    "loadCfgFile n sys (CfgBlock nm (expandUser sys path) Map.empty Map.empty) (expandUser sys path) text
      = Panic e"
  then show "NewCfg n sys w nm path = Panic e"
    by (simp add: NewCfg_def Let_def)
next
  assume a: "ReadBytes rdr = (buf0, dn, rdr')" "lineIsInclude (cleanLine (butlast buf0))"
    "getFilename (TrimSpace (cleanLine (butlast buf0))) = Ok f"
    "os_Open sys (expandUser sys f) = None"
  from a(2) have ne: "cleanLine (butlast buf0) \<noteq> []" "buf0 \<noteq> []"
    by (auto simp: lineIsInclude_def cleanLine_def TrimLeft_def TrimRight_def)
  show "loadCfgFile_loop (Suc n) sys cfg fnm prev rdr = Panic (''could not open file '' @ expandUser sys f)"
    using a ne by (simp add: loadCfgFile_loop.simps Let_def)
  show "loadBlock_loop (Suc n) sys cfg fnm prev rdr = Panic (''could not open file '' @ expandUser sys f)"
    using a ne by (simp add: loadBlock_loop.simps Let_def)
next
  assume a: "ReadBytes rdr = (buf0, dn, rdr')" "lineIsInclude (cleanLine (butlast buf0))"
    "getFilename (TrimSpace (cleanLine (butlast buf0))) = Ok f"
    "os_Open sys (expandUser sys f) = Some text"
    "loadCfgFile n sys cfg (expandUser sys f) text = Panic e"
  from a(2) have ne: "cleanLine (butlast buf0) \<noteq> []" "buf0 \<noteq> []"
    by (auto simp: lineIsInclude_def cleanLine_def TrimLeft_def TrimRight_def)
  show "loadCfgFile_loop (Suc n) sys cfg fnm prev rdr = Panic e"
    using a ne by (simp add: loadCfgFile_loop.simps Let_def loadCfgFile_def)
  show "loadBlock_loop (Suc n) sys cfg fnm prev rdr = Panic e"
    using a ne by (simp add: loadBlock_loop.simps Let_def loadCfgFile_def)
next
  assume a: "ReadBytes rdr = (buf0, dn, rdr')" "cleanLine (butlast buf0) \<noteq> []"
    "\<not> lineIsInclude (cleanLine (butlast buf0))" "\<not> lineIsBlockEnd (cleanLine (butlast buf0))"
    "lineIsBlockNew (cleanLine (butlast buf0))"
    "loadBlock n sys (CfgBlock (getBlockname (cleanLine (butlast buf0))) fnm Map.empty Map.empty) fnm rdr'
      = Panic e"
  from a(2) have ne: "buf0 \<noteq> []"
    by (auto simp: cleanLine_def TrimLeft_def TrimRight_def)
  show "loadCfgFile_loop (Suc n) sys cfg fnm prev rdr = Panic e"
    using a ne by (simp add: loadCfgFile_loop.simps Let_def loadBlock_def)
  show "loadBlock_loop (Suc n) sys cfg fnm prev rdr = Panic e"
    using a ne by (simp add: loadBlock_loop.simps Let_def loadBlock_def)
qed

lemma panic_by_cases: "(case r of Panic e \<Rightarrow> e = m | _ \<Rightarrow> False) \<Longrightarrow> r = Panic m"
  by (cases r) auto

theorem missing_file_panics_witness:
  "cfgs no_world ''cfg'' = None \<and>
   os_Open no_files (expandUser no_files ''/top'') = None \<and>
   os_Open inc_os (expandUser inc_os ''/top'')
     = Some (lines_text [''%block t'', ''{'', ''r :: a=1;'', ''%include /a'', ''}'']) \<and>
   loadCfgFile 10 inc_os (CfgBlock ''cfg'' (expandUser inc_os ''/top'') Map.empty Map.empty)
       (expandUser inc_os ''/top'')
       (lines_text [''%block t'', ''{'', ''r :: a=1;'', ''%include /a'', ''}''])
     = Panic ''could not open file /missing'' \<and>
   ReadBytes (lines_text [''%include /a'', ''}'']) = (''%include /a'' @ [NL], False, lines_text [''}'']) \<and>
   lineIsInclude (cleanLine (butlast (''%include /a'' @ [NL]))) \<and>
   getFilename (TrimSpace (cleanLine (butlast (''%include /a'' @ [NL])))) = Ok ''/a'' \<and>
   os_Open no_files (expandUser no_files ''/a'') = None \<and>
   os_Open inc_os (expandUser inc_os ''/a'') = Some (lines_text [''s :: b=2;'', ''%include /missing'']) \<and>
   loadCfgFile 5 inc_os empty_cfg (expandUser inc_os ''/a'')
       (lines_text [''s :: b=2;'', ''%include /missing''])
     = Panic ''could not open file /missing'' \<and>
   ReadBytes (lines_text [''%block t'', ''%include /a'', ''}''])
     = (''%block t'' @ [NL], False, lines_text [''%include /a'', ''}'']) \<and>
   cleanLine (butlast (''%block t'' @ [NL])) \<noteq> [] \<and>
   \<not> lineIsInclude (cleanLine (butlast (''%block t'' @ [NL]))) \<and>
   \<not> lineIsBlockEnd (cleanLine (butlast (''%block t'' @ [NL]))) \<and>
   lineIsBlockNew (cleanLine (butlast (''%block t'' @ [NL]))) \<and>
   loadBlock 5 no_files
       (CfgBlock (getBlockname (cleanLine (butlast (''%block t'' @ [NL])))) ''/top'' Map.empty Map.empty)
       ''/top'' (lines_text [''%include /a'', ''}''])
     = Panic ''could not open file /a'' \<and>
   NewCfg 10 no_files no_world ''cfg'' ''/top'' = Panic ''could not open file /top'' \<and>
   NewCfg 10 inc_os no_world ''cfg'' ''/top'' = Panic ''could not open file /missing'' \<and>
   loadCfgFile_loop (Suc 5) no_files empty_cfg ''/top'' [] (lines_text [''%include /a'', ''}''])
     = Panic ''could not open file /a'' \<and>
   loadBlock_loop (Suc 5) inc_os empty_cfg ''/top'' [] (lines_text [''%include /a'', ''}''])
     = Panic ''could not open file /missing'' \<and>
   loadCfgFile_loop (Suc 5) no_files empty_cfg ''/top'' [] (lines_text [''%block t'', ''%include /a'', ''}''])
     = Panic ''could not open file /a''"
proof -
  have h1: "cfgs no_world ''cfg'' = None" by (simp add: no_world_def)
  have h2: "os_Open no_files (expandUser no_files ''/top'') = None"
    "os_Open no_files (expandUser no_files ''/a'') = None"
    by (simp_all add: no_files_def os_Open_def)
  have h3: "os_Open inc_os (expandUser inc_os ''/top'')
     = Some (lines_text [''%block t'', ''{'', ''r :: a=1;'', ''%include /a'', ''}''])"
    "os_Open inc_os (expandUser inc_os ''/a'') = Some (lines_text [''s :: b=2;'', ''%include /missing''])"
    by (simp_all add: inc_os_def os_Open_def expandUser_def)
  have h4: "loadCfgFile 10 inc_os (CfgBlock ''cfg'' (expandUser inc_os ''/top'') Map.empty Map.empty)
       (expandUser inc_os ''/top'')
       (lines_text [''%block t'', ''{'', ''r :: a=1;'', ''%include /a'', ''}''])
     = Panic ''could not open file /missing''"
    by (rule panic_by_cases) code_simp
  have h5: "ReadBytes (lines_text [''%include /a'', ''}'']) = (''%include /a'' @ [NL], False, lines_text [''}''])"
    "ReadBytes (lines_text [''%block t'', ''%include /a'', ''}''])
     = (''%block t'' @ [NL], False, lines_text [''%include /a'', ''}''])"
    by (simp_all add: ReadBytes_def lines_text_def)
  have h6: "lineIsInclude (cleanLine (butlast (''%include /a'' @ [NL])))"
    "getFilename (TrimSpace (cleanLine (butlast (''%include /a'' @ [NL])))) = Ok ''/a''"
    "cleanLine (butlast (''%block t'' @ [NL])) \<noteq> []"
    "\<not> lineIsInclude (cleanLine (butlast (''%block t'' @ [NL])))"
    "\<not> lineIsBlockEnd (cleanLine (butlast (''%block t'' @ [NL])))"
    "lineIsBlockNew (cleanLine (butlast (''%block t'' @ [NL])))"
    by code_simp+
  have h7: "loadCfgFile 5 inc_os empty_cfg (expandUser inc_os ''/a'')
       (lines_text [''s :: b=2;'', ''%include /missing''])
     = Panic ''could not open file /missing''"
    by (rule panic_by_cases) code_simp
  have h8: "loadBlock 5 no_files
       (CfgBlock (getBlockname (cleanLine (butlast (''%block t'' @ [NL])))) ''/top'' Map.empty Map.empty)
       ''/top'' (lines_text [''%include /a'', ''}''])
     = Panic ''could not open file /a''"
    by (rule panic_by_cases) code_simp
  have e: "expandUser no_files ''/top'' = ''/top''" "expandUser inc_os ''/a'' = ''/a''"
    "expandUser no_files ''/a'' = ''/a''"
    by (simp_all add: expandUser_def)
  note t = missing_file_panics
  show ?thesis
    using h1 h2 h3 h4 h5 h6 h7 h8
      t [of no_world "''cfg''" no_files "''/top''" 10]
      t [of no_world "''cfg''" inc_os "''/top''" 10 "lines_text [''%block t'', ''{'', ''r :: a=1;'', ''%include /a'', ''}'']"
          "''could not open file /missing''"]
      t [of _ _ no_files _ 5 _ _ "lines_text [''%include /a'', ''}'']" "''%include /a'' @ [NL]" False
          "lines_text [''}'']" "''/a''" empty_cfg "''/top''" "[]"]
      t [of _ _ inc_os _ 5 "lines_text [''s :: b=2;'', ''%include /missing'']" "''could not open file /missing''"
          "lines_text [''%include /a'', ''}'']" "''%include /a'' @ [NL]" False
          "lines_text [''}'']" "''/a''" empty_cfg "''/top''" "[]"]
      t [of _ _ no_files _ 5 _ "''could not open file /a''"
          "lines_text [''%block t'', ''%include /a'', ''}'']" "''%block t'' @ [NL]" False
          "lines_text [''%include /a'', ''}'']" _ empty_cfg "''/top''" "[]"]
    by (simp add: e)
qed

section \<open>The final line\<close>

lemma line_step_sim:
  assumes rb1: "ReadBytes rdr1 = (b1, dn1, x1)" and rb2: "ReadBytes rdr2 = (b2, dn2, x2)"
    and ne: "b1 \<noteq> []" "b2 \<noteq> []"
    and buf: "cleanLine (butlast b1) = cleanLine (butlast b2)"
    and Q0: "\<And>r. Q OutOfFuel r"
    and QP: "\<And>e. Q (Panic e) (Panic e)"
    and leaf: "\<And>c p. Q (if dn1 then ret1 c x1 else cont1 c p x1) (if dn2 then ret2 c x2 else cont2 c p x2)"
    and leafE: "\<And>c. Q (ret1 c x1) (ret2 c x2)"
    and recF: "\<And>c f x. le_res (recF1 c f x) (recF2 c f x)"
    and recB: "\<And>c0. recB1 c0 x1 = OutOfFuel \<or> (\<exists>e. recB1 c0 x1 = Panic e \<and> recB2 c0 x2 = Panic e) \<or>
                 (\<exists>child y1 y2. recB1 c0 x1 = Ok (child, y1) \<and> recB2 c0 x2 = Ok (child, y2) \<and>
                    (\<forall>c p. Q (if dn1 then ret1 c y1 else cont1 c p y1)
                             (if dn2 then ret2 c y2 else cont2 c p y2)))"
  shows "Q (line_step ret1 cont1 recF1 recB1 sys cfg fnm prev rdr1)
           (line_step ret2 cont2 recF2 recB2 sys cfg fnm prev rdr2)"
proof -
  define buf where "buf = cleanLine (butlast b2)"
  have b1: "cleanLine (butlast b1) = buf" using buf by (simp add: buf_def)
  consider (blank) "length buf < 1"
    | (incl) "\<not> length buf < 1" "lineIsInclude buf"
    | (bend) "\<not> length buf < 1" "\<not> lineIsInclude buf" "lineIsBlockEnd buf"
    | (bnew) "\<not> length buf < 1" "\<not> lineIsInclude buf" "\<not> lineIsBlockEnd buf" "lineIsBlockNew buf"
    | (other) "\<not> length buf < 1" "\<not> lineIsInclude buf" "\<not> lineIsBlockEnd buf" "\<not> lineIsBlockNew buf"
    by blast
  then show ?thesis
  proof cases
    case blank
    then show ?thesis
      unfolding line_step_def rb1 rb2 prod.case Let_def b1 buf_def [symmetric]
      using ne leaf by simp
  next
    case incl
    have "Q (case getFilename (TrimSpace buf) of
                OutOfFuel \<Rightarrow> OutOfFuel
              | Panic e \<Rightarrow> Panic e
              | Ok f \<Rightarrow>
                   (case os_Open sys (expandUser sys f) of
                     None \<Rightarrow> Panic (''could not open file '' @ expandUser sys f)
                   | Some content \<Rightarrow>
                       (case recF1 cfg (expandUser sys f) content of
                          OutOfFuel \<Rightarrow> OutOfFuel
                        | Panic e \<Rightarrow> Panic e
                        | Ok cfg' \<Rightarrow>
                            if dn1 then ret1 cfg' x1
                            else cont1 cfg' prev x1)))
       (case getFilename (TrimSpace buf) of
                OutOfFuel \<Rightarrow> OutOfFuel
              | Panic e \<Rightarrow> Panic e
              | Ok f \<Rightarrow>
                   (case os_Open sys (expandUser sys f) of
                     None \<Rightarrow> Panic (''could not open file '' @ expandUser sys f)
                   | Some content \<Rightarrow>
                       (case recF2 cfg (expandUser sys f) content of
                          OutOfFuel \<Rightarrow> OutOfFuel
                        | Panic e \<Rightarrow> Panic e
                        | Ok cfg' \<Rightarrow>
                            if dn2 then ret2 cfg' x2
                            else cont2 cfg' prev x2)))"
    proof (cases "getFilename (TrimSpace buf)")
      case (Ok f0)
      show ?thesis
      proof (cases "os_Open sys (expandUser sys f0)")
        case None
        with Ok show ?thesis by (simp add: QP)
      next
        case (Some content)
        show ?thesis
        proof (cases "recF1 cfg (expandUser sys f0) content = OutOfFuel")
          case True
          then show ?thesis by (simp add: Ok Some Q0)
        next
          case False
          with recF [of cfg "expandUser sys f0" content]
          have e: "recF2 cfg (expandUser sys f0) content = recF1 cfg (expandUser sys f0) content"
            by (simp add: le_res_def)
          show ?thesis
            unfolding Ok Some result.case option.case e
            by (cases "recF1 cfg (expandUser sys f0) content") (simp_all add: Q0 QP leaf)
        qed
      qed
    qed (simp_all add: Q0 QP)
    with incl show ?thesis
      unfolding line_step_def rb1 rb2 prod.case Let_def b1 buf_def [symmetric]
      using ne by simp
  next
    case bend
    then show ?thesis
      unfolding line_step_def rb1 rb2 prod.case Let_def b1 buf_def [symmetric]
      using ne leafE by simp
  next
    case bnew
    let ?c0 = "CfgBlock (getBlockname buf) fnm Map.empty Map.empty"
    have "Q (case recB1 ?c0 x1 of
                OutOfFuel \<Rightarrow> OutOfFuel
              | Panic e \<Rightarrow> Panic e
              | Ok (child, rdr'') \<Rightarrow>
                  if dn1 then ret1 (setTbl cfg (getBlockname buf) child) rdr''
                  else cont1 (setTbl cfg (getBlockname buf) child) prev rdr'')
      (case recB2 ?c0 x2 of
                OutOfFuel \<Rightarrow> OutOfFuel
              | Panic e \<Rightarrow> Panic e
              | Ok (child, rdr'') \<Rightarrow>
                  if dn2 then ret2 (setTbl cfg (getBlockname buf) child) rdr''
                  else cont2 (setTbl cfg (getBlockname buf) child) prev rdr'')"
      using recB [of ?c0] by (auto simp: Q0 QP)
    with bnew show ?thesis
      unfolding line_step_def rb1 rb2 prod.case Let_def b1 buf_def [symmetric]
      using ne by simp
  next
    case other
    then show ?thesis
      unfolding line_step_def rb1 rb2 prod.case Let_def b1 buf_def [symmetric]
      using ne leaf by (simp split: prod.split)
  qed
qed


lemma res_rel_simps [simp]:
  "res_rel R OutOfFuel r" "res_rel R (Panic e) (Panic e)"
  "res_rel R (Ok (c, y1)) (Ok (c, y2)) \<longleftrightarrow> R y1 y2"
  by (auto simp: res_rel_def)

lemma le_res_res_rel:
  assumes "le_res r1 r2" "\<And>y. R y y"
  shows "res_rel R r1 r2"
  using assms by (cases r1) (auto simp: le_res_def res_rel_def)

lemma complete_lines_split:
  assumes "pre \<noteq> []" "last pre = NL"
  shows "\<exists>l0 pre'. pre = l0 @ NL # pre' \<and> NL \<notin> set l0 \<and> (pre' = [] \<or> last pre' = NL)"
proof -
  from assms have "NL \<in> set pre" by (metis last_in_set)
  then obtain l0 pre' where p: "pre = l0 @ NL # pre'" "NL \<notin> set l0"
    by (auto dest: split_list_first)
  with assms(2) have "pre' = [] \<or> last pre' = NL" by (auto split: if_splits)
  with p show ?thesis by blast
qed

lemma loadBlock_loop_empty:
  "loadBlock_loop n sys c fnm p [] = OutOfFuel \<or> loadBlock_loop n sys c fnm p [] = Ok (c, [])"
  by (cases n) (simp_all add: end_of_file loadBlock_loop.simps(1))

lemma loadCfgFile_loop_empty:
  "loadCfgFile_loop n sys c fnm p [] = OutOfFuel \<or> loadCfgFile_loop n sys c fnm p [] = Ok c"
  by (cases n) (simp_all add: end_of_file loadCfgFile_loop.simps(1))

lemma unterminated_then_terminated:
  assumes l: "NL \<notin> set l" "l \<noteq> []"
  shows "tail_rel l rdr1 rdr2 \<Longrightarrow>
         le_res (loadCfgFile_loop n sys cfg fnm prev rdr1) (loadCfgFile_loop (Suc n) sys cfg fnm prev rdr2) \<and>
         res_rel (tail_rel l) (loadBlock_loop n sys cfg fnm prev rdr1)
           (loadBlock_loop (Suc n) sys cfg fnm prev rdr2)"
proof (induction n arbitrary: cfg fnm prev rdr1 rdr2)
  case 0
  show ?case by (simp add: loadCfgFile_loop.simps loadBlock_loop.simps)
next
  case (Suc n)
  have refl: "tail_rel l y y" for y by (simp add: tail_rel_def)
  show ?case
  proof (cases "rdr1 = rdr2")
    case True
    then show ?thesis
      using fuel_mono_Suc [of "Suc n" sys cfg fnm prev rdr2] refl
      by (auto intro: le_res_res_rel)
  next
    case False
    with Suc.prems obtain pre where pre: "pre = [] \<or> last pre = NL" "rdr1 = pre @ l"
      "rdr2 = pre @ butlast l @ [NL]"
      by (auto simp: tail_rel_def)
    have nb: "NL \<notin> set (butlast l)" using l(1) by (auto dest: in_set_butlastD)
    have eof: "loadCfgFile_loop (Suc n) sys c fnm p [] = Ok c"
      "loadBlock_loop (Suc n) sys c fnm p [] = Ok (c, [])" for c p
      by (simp_all add: end_of_file)
    have mf: "le_res (loadCfgFile_loop n sys c f [] x) (loadCfgFile_loop (Suc n) sys c f [] x)" for c f x
      using fuel_mono_Suc [of n sys c f "[]" x] by simp
    show ?thesis
    proof (cases "pre = []")
      case True
      have rb1: "ReadBytes rdr1 = (l, True, [])" using l(1) pre True by (simp add: ReadBytes_last)
      have rb2: "ReadBytes rdr2 = (butlast l @ [NL], False, [])"
        using ReadBytes_line [OF nb, of "[]"] pre True by simp
      have bb: "cleanLine (butlast l) = cleanLine (butlast (butlast l @ [NL]))" by simp
      show ?thesis
      proof
        show "le_res (loadCfgFile_loop (Suc n) sys cfg fnm prev rdr1)
                (loadCfgFile_loop (Suc (Suc n)) sys cfg fnm prev rdr2)"
          apply (subst loadCfgFile_loop_step [of "Suc n"])
          apply (subst loadCfgFile_loop_step [of n sys cfg fnm prev rdr1])
          apply (rule line_step_sim [OF rb1 rb2 _ _ bb])
                apply (simp_all add: l(2) eof mf)
          apply (metis loadBlock_loop_empty)
          done
        show "res_rel (tail_rel l) (loadBlock_loop (Suc n) sys cfg fnm prev rdr1)
                (loadBlock_loop (Suc (Suc n)) sys cfg fnm prev rdr2)"
          apply (subst loadBlock_loop_step [of "Suc n"])
          apply (subst loadBlock_loop_step [of n sys cfg fnm prev rdr1])
          apply (rule line_step_sim [OF rb1 rb2 _ _ bb])
                apply (simp_all add: l(2) eof mf refl)
          apply (metis loadBlock_loop_empty refl)
          done
      qed
    next
      case False
      with pre(1) obtain l0 pre' where sp: "pre = l0 @ NL # pre'" "NL \<notin> set l0" "pre' = [] \<or> last pre' = NL"
        using complete_lines_split by blast
      define x1 where "x1 = pre' @ l"
      define x2 where "x2 = pre' @ butlast l @ [NL]"
      have xr: "tail_rel l x1 x2" using sp(3) by (auto simp: tail_rel_def x1_def x2_def)
      have rb1: "ReadBytes rdr1 = (l0 @ [NL], False, x1)"
        using ReadBytes_line [OF sp(2), of "pre' @ l"] pre sp by (simp add: x1_def)
      have rb2: "ReadBytes rdr2 = (l0 @ [NL], False, x2)"
        using ReadBytes_line [OF sp(2), of "pre' @ butlast l @ [NL]"] pre sp by (simp add: x2_def)
      note ih = Suc.IH
      have rB: "loadBlock_loop n sys c0 fnm [] x1 = OutOfFuel \<or>
            (\<exists>e. loadBlock_loop n sys c0 fnm [] x1 = Panic e \<and> loadBlock_loop (Suc n) sys c0 fnm [] x2 = Panic e) \<or>
            (\<exists>child y1 y2. loadBlock_loop n sys c0 fnm [] x1 = Ok (child, y1) \<and>
               loadBlock_loop (Suc n) sys c0 fnm [] x2 = Ok (child, y2) \<and> tail_rel l y1 y2)" for c0
        using ih [OF xr, of c0 fnm "[]", THEN conjunct2] by (simp add: res_rel_def)
      show ?thesis
      proof
        show "le_res (loadCfgFile_loop (Suc n) sys cfg fnm prev rdr1)
                (loadCfgFile_loop (Suc (Suc n)) sys cfg fnm prev rdr2)"
          apply (subst loadCfgFile_loop_step [of "Suc n"])
          apply (subst loadCfgFile_loop_step [of n sys cfg fnm prev rdr1])
          apply (rule line_step_sim [OF rb1 rb2])
                  apply (simp_all add: mf)
           apply (rule ih [OF xr, THEN conjunct1])
          using rB ih apply blast
          done
        show "res_rel (tail_rel l) (loadBlock_loop (Suc n) sys cfg fnm prev rdr1)
                (loadBlock_loop (Suc (Suc n)) sys cfg fnm prev rdr2)"
          apply (subst loadBlock_loop_step [of "Suc n"])
          apply (subst loadBlock_loop_step [of n sys cfg fnm prev rdr1])
          apply (rule line_step_sim [OF rb1 rb2])
                  apply (simp_all add: mf xr)
           apply (rule ih [OF xr, THEN conjunct2])
          using rB ih apply blast
          done
      qed
    qed
  qed
qed


lemma terminated_then_unterminated:
  assumes l: "NL \<notin> set l" "l \<noteq> []"
  shows "tail_rel l rdr1 rdr2 \<Longrightarrow>
         le_res (loadCfgFile_loop n sys cfg fnm prev rdr2) (loadCfgFile_loop n sys cfg fnm prev rdr1) \<and>
         res_rel (\<lambda>a b. tail_rel l b a) (loadBlock_loop n sys cfg fnm prev rdr2)
           (loadBlock_loop n sys cfg fnm prev rdr1)"
proof (induction n arbitrary: cfg fnm prev rdr1 rdr2)
  case 0
  show ?case by (simp add: loadCfgFile_loop.simps loadBlock_loop.simps)
next
  case (Suc n)
  have refl: "tail_rel l y y" for y by (simp add: tail_rel_def)
  show ?case
  proof (cases "rdr1 = rdr2")
    case True
    then show ?thesis
      using refl by (auto intro: le_res_res_rel)
  next
    case False
    with Suc.prems obtain pre where pre: "pre = [] \<or> last pre = NL" "rdr1 = pre @ l"
      "rdr2 = pre @ butlast l @ [NL]"
      by (auto simp: tail_rel_def)
    have nb: "NL \<notin> set (butlast l)" using l(1) by (auto dest: in_set_butlastD)
    show ?thesis
    proof (cases "pre = []")
      case True
      have rb1: "ReadBytes rdr1 = (l, True, [])" using l(1) pre True by (simp add: ReadBytes_last)
      have rb2: "ReadBytes rdr2 = (butlast l @ [NL], False, [])"
        using ReadBytes_line [OF nb, of "[]"] pre True by simp
      have bb: "cleanLine (butlast (butlast l @ [NL])) = cleanLine (butlast l)" by simp
      show ?thesis
      proof
        show "le_res (loadCfgFile_loop (Suc n) sys cfg fnm prev rdr2)
                (loadCfgFile_loop (Suc n) sys cfg fnm prev rdr1)"
          apply (subst loadCfgFile_loop_step [of n sys cfg fnm prev rdr2])
          apply (subst loadCfgFile_loop_step [of n sys cfg fnm prev rdr1])
          apply (rule line_step_sim [OF rb2 rb1 _ _ bb])
                apply (simp_all add: l(2))
           apply (metis loadCfgFile_loop_empty le_res_bot le_res_refl)
          apply (metis loadBlock_loop_empty loadCfgFile_loop_empty le_res_bot le_res_refl)
          done
        show "res_rel (\<lambda>a b. tail_rel l b a) (loadBlock_loop (Suc n) sys cfg fnm prev rdr2)
                (loadBlock_loop (Suc n) sys cfg fnm prev rdr1)"
          apply (subst loadBlock_loop_step [of n sys cfg fnm prev rdr2])
          apply (subst loadBlock_loop_step [of n sys cfg fnm prev rdr1])
          apply (rule line_step_sim [OF rb2 rb1 _ _ bb])
                apply (simp_all add: l(2) refl)
           apply (metis loadBlock_loop_empty res_rel_simps refl)
          apply (metis loadBlock_loop_empty res_rel_simps refl)
          done
      qed
    next
      case False
      with pre(1) obtain l0 pre' where sp: "pre = l0 @ NL # pre'" "NL \<notin> set l0" "pre' = [] \<or> last pre' = NL"
        using complete_lines_split by blast
      define x1 where "x1 = pre' @ l"
      define x2 where "x2 = pre' @ butlast l @ [NL]"
      have xr: "tail_rel l x1 x2" using sp(3) by (auto simp: tail_rel_def x1_def x2_def)
      have rb1: "ReadBytes rdr1 = (l0 @ [NL], False, x1)"
        using ReadBytes_line [OF sp(2), of "pre' @ l"] pre sp by (simp add: x1_def)
      have rb2: "ReadBytes rdr2 = (l0 @ [NL], False, x2)"
        using ReadBytes_line [OF sp(2), of "pre' @ butlast l @ [NL]"] pre sp by (simp add: x2_def)
      note ih = Suc.IH
      have rB: "loadBlock_loop n sys c0 fnm [] x2 = OutOfFuel \<or>
            (\<exists>e. loadBlock_loop n sys c0 fnm [] x2 = Panic e \<and> loadBlock_loop n sys c0 fnm [] x1 = Panic e) \<or>
            (\<exists>child y1 y2. loadBlock_loop n sys c0 fnm [] x2 = Ok (child, y1) \<and>
               loadBlock_loop n sys c0 fnm [] x1 = Ok (child, y2) \<and> tail_rel l y2 y1)" for c0
        using ih [OF xr, of c0 fnm "[]", THEN conjunct2] by (simp add: res_rel_def)
      show ?thesis
      proof
        show "le_res (loadCfgFile_loop (Suc n) sys cfg fnm prev rdr2)
                (loadCfgFile_loop (Suc n) sys cfg fnm prev rdr1)"
          apply (subst loadCfgFile_loop_step [of n sys cfg fnm prev rdr2])
          apply (subst loadCfgFile_loop_step [of n sys cfg fnm prev rdr1])
          apply (rule line_step_sim [OF rb2 rb1])
                  apply simp_all
           apply (rule ih [OF xr, THEN conjunct1])
          using rB ih apply blast
          done
        show "res_rel (\<lambda>a b. tail_rel l b a) (loadBlock_loop (Suc n) sys cfg fnm prev rdr2)
                (loadBlock_loop (Suc n) sys cfg fnm prev rdr1)"
          apply (subst loadBlock_loop_step [of n sys cfg fnm prev rdr2])
          apply (subst loadBlock_loop_step [of n sys cfg fnm prev rdr1])
          apply (rule line_step_sim [OF rb2 rb1])
                  apply (simp_all add: xr)
           apply (rule ih [OF xr, THEN conjunct2])
          using rB ih apply blast
          done
      qed
    qed
  qed
qed


lemma not_out_of_fuel: "(case r of OutOfFuel \<Rightarrow> False | _ \<Rightarrow> True) \<Longrightarrow> r \<noteq> OutOfFuel"
  by (cases r) auto


section \<open>Writing a tree and loading it again\<close>

subsection \<open>Columns\<close>

lemma writeCols_Nil: "writeCols rw [] = []"
  by (simp add: writeCols_def)

lemma writeCols_Cons:
  "cols rw c = Some v \<Longrightarrow> writeCols rw (c # cs) = c @ ''='' @ v @ ''; '' @ writeCols rw cs"
  by (simp add: writeCols_def)

lemma writeCols_snoc:
  "cols rw c = Some v \<Longrightarrow> writeCols rw (cs @ [c]) = writeCols rw cs @ c @ ''='' @ v @ ''; ''"
  by (simp add: writeCols_def)

lemma writeCols_chars:
  assumes "clean_row rw"
  shows "NL \<notin> set (writeCols rw cs) \<and> CHR ''#'' \<notin> set (writeCols rw cs)"
proof (induction cs)
  case Nil
  show ?case by (simp add: writeCols_Nil)
next
  case (Cons c cs)
  show ?case
  proof (cases "cols rw c")
    case None
    with Cons show ?thesis by (simp add: writeCols_def)
  next
    case (Some v)
    with assms have "NL \<notin> set c \<and> CHR ''#'' \<notin> set c \<and> NL \<notin> set v \<and> CHR ''#'' \<notin> set v"
      by (auto simp: clean_row_def col_name_ok_def value_ok_def plain_text_def)
    with Cons Some show ?thesis by (simp add: writeCols_Cons)
  qed
qed

lemma writeCols_end:
  assumes "cs \<noteq> []" "set cs \<subseteq> dom (cols rw)"
  shows "\<exists>w. writeCols rw cs = w @ ''; ''"
proof (cases cs rule: rev_cases)
  case Nil
  with assms(1) show ?thesis by simp
next
  case (snoc cs' c)
  with assms(2) obtain v where "cols rw c = Some v" by auto
  then show ?thesis by (simp add: snoc writeCols_snoc)
qed

text \<open>The column text of a written row once the line is cleaned: the last blank is gone.\<close>

lemma butlast_writeCols_Cons:
  assumes "cols rw c = Some v" "set cs \<subseteq> dom (cols rw)"
  shows "butlast (writeCols rw (c # cs)) =
           c @ ''='' @ v @ '';'' @ (if cs = [] then [] else '' '' @ butlast (writeCols rw cs))"
proof (cases "cs = []")
  case True
  with assms(1) show ?thesis by (simp add: writeCols_Cons writeCols_Nil butlast_append)
next
  case False
  with writeCols_end [OF False assms(2)] have "writeCols rw cs \<noteq> []" by auto
  with assms(1) False show ?thesis by (simp add: writeCols_Cons butlast_append)
qed

lemma loadCols_blank:
  assumes "set pre \<subseteq> set blanks"
  shows "loadCols m (pre # ps) = loadCols m ps"
proof -
  have "CHR ''='' \<notin> set pre" using assms by (auto simp: blanks_def)
  then have "SplitN2 pre (CHR ''='') = [pre]" by (rule SplitN2_none)
  moreover have "cleanLine pre = []"
    using cleanLine_wrapped [of pre "[]" "[]"] assms by (simp add: trimmed_def)
  ultimately show ?thesis by (simp add: Let_def)
qed

lemma loadCols_pair:
  assumes "set pre \<subseteq> set blanks" "col_name_ok c" "value_ok v"
  shows "loadCols m ((pre @ c @ ''='' @ v) # ps) = loadCols (m(c \<mapsto> v)) ps"
proof -
  have "CHR ''='' \<notin> set (pre @ c)"
    using assms(1,2) by (auto simp: blanks_def col_name_ok_def)
  then have "SplitN2 ((pre @ c) @ CHR ''='' # v) (CHR ''='') = [pre @ c, v]" by (rule SplitN2_found)
  then have s: "SplitN2 (pre @ c @ CHR ''='' # v) (CHR ''='') = [pre @ c, v]" by simp
  have k: "cleanLine (pre @ c) = c"
    using cleanLine_wrapped [of pre "[]" c] assms(1,2) by (simp add: col_name_ok_def plain_text_def)
  have v: "cleanLine v = v"
    using assms(3) by (simp add: cleanLine_id value_ok_def plain_text_def)
  have "c \<noteq> []" using assms(2) by (simp add: col_name_ok_def)
  then show ?thesis
    by (simp add: s k v Let_def)
qed

lemma loadCols_written:
  assumes "clean_row rw" "set cs \<subseteq> dom (cols rw)" "set pre \<subseteq> set blanks"
  shows "loadCols m (Split_from [] (CHR '';'') (pre @ butlast (writeCols rw cs)))
           = (\<lambda>k. if k \<in> set cs then cols rw k else m k)"
  using assms(2,3)
proof (induction cs arbitrary: m pre)
  case Nil
  have "CHR '';'' \<notin> set pre" using Nil by (auto simp: blanks_def)
  then show ?case
    using Nil by (simp add: writeCols_Nil Split_from_none loadCols_blank del: loadCols.simps(2))
next
  case (Cons c cs)
  then obtain v where v: "cols rw c = Some v" by auto
  with assms(1) have ok: "col_name_ok c" "value_ok v" by (auto simp: clean_row_def)
  define pre' where "pre' = (if cs = [] then [] else '' '')"
  have pb: "set pre' \<subseteq> set blanks" by (simp add: pre'_def blanks_def)
  have "CHR '';'' \<notin> set (pre @ c @ ''='' @ v)"
    using Cons.prems ok by (auto simp: blanks_def col_name_ok_def value_ok_def)
  then have "Split_from [] (CHR '';'') ((pre @ c @ ''='' @ v) @ CHR '';'' # pre' @ butlast (writeCols rw cs))
      = (pre @ c @ ''='' @ v) # Split_from [] (CHR '';'') (pre' @ butlast (writeCols rw cs))"
    using Split_from_first [of "CHR '';''" "pre @ c @ ''='' @ v" "[]"] by simp
  moreover have "pre @ butlast (writeCols rw (c # cs))
      = (pre @ c @ ''='' @ v) @ CHR '';'' # pre' @ butlast (writeCols rw cs)"
    using butlast_writeCols_Cons [OF v, of cs] Cons.prems
    by (auto simp: pre'_def writeCols_Nil)
  ultimately have "loadCols m (Split_from [] (CHR '';'') (pre @ butlast (writeCols rw (c # cs))))
      = loadCols (m(c \<mapsto> v)) (Split_from [] (CHR '';'') (pre' @ butlast (writeCols rw cs)))"
    by (simp only: loadCols_pair [OF Cons.prems(2) ok])
  also have "\<dots> = (\<lambda>k. if k \<in> set cs then cols rw k else (m(c \<mapsto> v)) k)"
    using Cons.prems pb by (intro Cons.IH) auto
  also have "\<dots> = (\<lambda>k. if k \<in> set (c # cs) then cols rw k else m k)"
    using v by auto
  finally show ?case .
qed

subsection \<open>Rows\<close>

lemma cleaned_row_line:
  assumes "row_name_ok r" "clean_row rw" "set cs \<subseteq> dom (cols rw)"
  shows "cleanLine (TAB # r @ TAB # '':: '' @ writeCols rw cs)
           = r @ TAB # ''::'' @ (if cs = [] then [] else '' '' @ butlast (writeCols rw cs))"
    (is "cleanLine ?raw = ?S")
proof -
  have raw: "?raw = [TAB] @ ?S @ '' ''"
  proof (cases "cs = []")
    case True
    then show ?thesis by (simp add: writeCols_Nil)
  next
    case False
    from writeCols_end [OF False assms(3)] obtain w where "writeCols rw cs = w @ ''; ''" by blast
    with False show ?thesis by (simp add: butlast_append)
  qed
  have r: "r \<noteq> []" "CHR ''#'' \<notin> set r" "hd r \<notin> set blanks"
    using assms(1) by (auto simp: row_name_ok_def plain_text_def trimmed_def)
  have "CHR ''#'' \<notin> set (butlast (writeCols rw cs))"
    using writeCols_chars [OF assms(2), of cs] by (auto dest: in_set_butlastD)
  with r have h: "CHR ''#'' \<notin> set ?S" by auto
  have "last ?S \<notin> set blanks"
  proof (cases "cs = []")
    case True
    then show ?thesis by (simp add: blanks_def)
  next
    case False
    from writeCols_end [OF False assms(3)] obtain w where "writeCols rw cs = w @ ''; ''" by blast
    with False show ?thesis by (simp add: butlast_append blanks_def)
  qed
  moreover have "hd ?S \<notin> set blanks" using r by simp
  ultimately have t: "trimmed ?S" by (simp add: trimmed_def)
  show ?thesis
    unfolding raw by (rule cleanLine_wrapped [OF _ _ h t]) (simp_all add: blanks_def)
qed


lemma butlast_writeCols_trimmed:
  assumes "clean_row rw" "set cs \<subseteq> dom (cols rw)"
  shows "trimmed (butlast (writeCols rw cs))"
proof (cases cs)
  case Nil
  then show ?thesis by (simp add: writeCols_Nil trimmed_def)
next
  case (Cons c cs')
  with assms(2) obtain v where v: "cols rw c = Some v" by auto
  with assms(1) have "c \<noteq> []" "hd c \<notin> set blanks"
    by (auto simp: clean_row_def col_name_ok_def plain_text_def trimmed_def)
  then have h: "hd (butlast (writeCols rw cs)) \<notin> set blanks"
    using butlast_writeCols_Cons [OF v, of cs'] assms(2) Cons by simp
  from writeCols_end [of cs rw] assms(2) Cons obtain w where "writeCols rw cs = w @ ''; ''" by auto
  then have "last (butlast (writeCols rw cs)) = CHR '';''" by (simp add: butlast_append)
  with h show ?thesis by (simp add: trimmed_def blanks_def)
qed

lemma storeRow_fresh:
  "rows cfg r = None \<Longrightarrow>
   storeRow cfg r data add =
     setRow cfg r \<lparr>row_name = r, cols = loadCols Map.empty (strings_Split data (CHR '';''))\<rparr>"
  by (simp add: storeRow_def setRow_def)

lemma loadRow_written:
  assumes "row_name_ok r" "clean_row rw" "set cs = dom (cols rw)" "rows cfg r = None"
  shows "loadRow cfg (r @ TAB # ''::'' @ (if cs = [] then [] else '' '' @ butlast (writeCols rw cs))) []
           = (setRow cfg r \<lparr>row_name = r, cols = cols rw\<rparr>, r)"
proof -
  define D where "D = butlast (writeCols rw cs)"
  define E where "E = (if cs = [] then [] else '' '' @ D)"
  define S where "S = r @ TAB # ''::'' @ E"
  have sub: "set cs \<subseteq> dom (cols rw)" using assms(3) by simp
  have r: "r \<noteq> []" "CHR ''#'' \<notin> set r" "trimmed r" "Index r ''::'' < 0" "Index r ''+='' < 0"
    using assms(1) by (auto simp: row_name_ok_def plain_text_def)
  have Dh: "CHR ''#'' \<notin> set D"
    unfolding D_def using writeCols_chars [OF assms(2), of cs] by (auto dest: in_set_butlastD)
  have Dt: "trimmed D"
    unfolding D_def by (rule butlast_writeCols_trimmed [OF assms(2) sub])
  have Dne: "D \<noteq> []" if "cs \<noteq> []"
    using writeCols_end [OF that sub] by (auto simp: D_def butlast_append)
  have Sh: "CHR ''#'' \<notin> set S" using r Dh by (auto simp: S_def E_def)
  have "last S \<notin> set blanks"
  proof (cases "cs = []")
    case True
    then show ?thesis by (simp add: S_def E_def blanks_def)
  next
    case False
    with Dne Dt show ?thesis by (simp add: S_def E_def trimmed_def)
  qed
  moreover have "hd S \<notin> set blanks" using r by (simp add: S_def trimmed_def)
  ultimately have cl: "cleanLine S = S"
    using Sh by (intro cleanLine_id) (simp_all add: trimmed_def)
  have i1: "Index (TAB # ''::'' @ E) ''::'' = 1" by simp
  have "Index (r @ (TAB # ''::'' @ E)) [CHR '':'', CHR '':'']
          = (if Index (TAB # ''::'' @ E) [CHR '':'', CHR '':''] < 0 then - 1
             else int (length r) + Index (TAB # ''::'' @ E) [CHR '':'', CHR '':''])"
    by (rule Index_pair_append [OF r(4)]) simp
  then have nnNew: "Index S ''::'' = int (length r) + 1"
    unfolding i1 by (simp add: S_def)
  have i2: "Index (TAB # ''::'' @ E) ''+='' = - 1 \<or> 1 < Index (TAB # ''::'' @ E) ''+=''"
    using Index_ge [of E "''+=''"] by (auto simp: Let_def)
  have "Index (r @ (TAB # ''::'' @ E)) [CHR ''+'', CHR ''='']
          = (if Index (TAB # ''::'' @ E) [CHR ''+'', CHR ''=''] < 0 then - 1
             else int (length r) + Index (TAB # ''::'' @ E) [CHR ''+'', CHR ''=''])"
    by (rule Index_pair_append [OF r(5)]) simp
  with i2 have nnAdd: "Index S ''+='' = - 1 \<or> Index S ''+='' > int (length r) + 1"
    by (auto simp: S_def split: if_splits simp del: Index.simps)
  have tk: "take (Suc (length r)) S = r @ [TAB]" and dr: "drop (Suc (Suc (Suc (length r)))) S = E"
    by (simp_all add: S_def)
  have rn: "cleanLine (r @ [TAB]) = r"
    using cleanLine_wrapped [of "[]" "[TAB]" r] r by (simp add: blanks_def)
  have data: "cleanLine E = D"
  proof (cases "cs = []")
    case True
    then show ?thesis by (simp add: E_def D_def writeCols_Nil cleanLine_id trimmed_def)
  next
    case False
    then show ?thesis
      using cleanLine_wrapped [of "'' ''" "[]" D] Dh Dt by (simp add: E_def blanks_def)
  qed
  have "loadCols Map.empty (Split_from [] (CHR '';'') ([] @ D)) = (\<lambda>k. if k \<in> set cs then cols rw k else None)"
    unfolding D_def by (rule loadCols_written [OF assms(2) sub]) simp
  also have "\<dots> = cols rw" using assms(3) by (auto simp: domIff)
  finally have lc: "loadCols Map.empty (strings_Split D (CHR '';'')) = cols rw"
    by (simp add: strings_Split_def)
  have st: "storeRow cfg r D add = setRow cfg r \<lparr>row_name = r, cols = cols rw\<rparr>" for add
    by (simp add: storeRow_fresh [OF assms(4)] lc)
  have n1: "nat (int (length r) + 1) = Suc (length r)"
    by simp
  have "loadRow cfg S [] = (setRow cfg r \<lparr>row_name = r, cols = cols rw\<rparr>, r)"
    using nnAdd
    by (auto simp add: loadRow_def cl Let_def n1 tk dr rn data st nnNew simp del: Index.simps)
  then show ?thesis unfolding S_def E_def D_def .
qed

lemma loadBlock_loop_written_row:
  assumes "row_name_ok r" "clean_row rw" "set cs = dom (cols rw)" "rows cfg r = None"
  shows "loadBlock_loop (Suc n) sys cfg fnm prev
           ((TAB # r @ TAB # '':: '' @ writeCols rw cs) @ NL # rest)
         = loadBlock_loop n sys (setRow cfg r (loaded_row r rw)) fnm r rest"
proof -
  have sub: "set cs \<subseteq> dom (cols rw)" using assms(3) by simp
  have r: "r \<noteq> []" "NL \<notin> set r" "Index r ''+='' < 0" "take 8 r \<noteq> ''%include''"
    "\<not> lineIsBlockNew r" "hd r \<noteq> CHR ''{''" "hd r \<noteq> CHR ''}''"
    using assms(1) by (auto simp: row_name_ok_def plain_text_def)
  have nl: "NL \<notin> set (TAB # r @ TAB # '':: '' @ writeCols rw cs)"
    using r(2) writeCols_chars [OF assms(2), of cs] by auto
  define E where "E = (if cs = [] then [] else '' '' @ butlast (writeCols rw cs))"
  define s where "s = r @ TAB # ''::'' @ E"
  have cl: "cleanLine (TAB # r @ TAB # '':: '' @ writeCols rw cs) = s"
    using cleaned_row_line [OF assms(1,2) sub] by (simp add: s_def E_def)
  have ne: "s \<noteq> []" by (simp add: s_def)
  have s0: "s ! 0 = hd r" using r(1) by (cases r) (simp_all add: s_def)
  have 1: "\<not> lineIsInclude s"
    unfolding s_def by (rule lineIsInclude_before_tab [OF r(4)])
  have 2: "\<not> lineIsBlockEnd s" using r(7) by (simp add: lineIsBlockEnd_def s0)
  have 3: "\<not> lineIsBlockNew s"
    unfolding s_def using r(5) by (simp add: lineIsBlockNew_before_tab)
  have 4: "\<not> (length s > 2 \<and> s ! 0 = CHR ''+'' \<and> s ! 1 = CHR ''='')"
  proof (cases r)
    case Nil
    with r(1) show ?thesis by simp
  next
    case (Cons x r')
    show ?thesis
    proof (cases r')
      case Nil
      then show ?thesis by (simp add: s_def Cons)
    next
      case (Cons y r'')
      with r(3) \<open>r = x # r'\<close> have "\<not> (x = CHR ''+'' \<and> y = CHR ''='')"
        by (intro Index_neg_not_prefix [of x y r'']) simp
      then show ?thesis by (auto simp: s_def Cons \<open>r = x # r'\<close>)
    qed
  qed
  have 5: "s ! 0 \<noteq> CHR ''{''" using r(6) by (simp add: s0)
  have lr: "loadRow cfg s [] = (setRow cfg r (loaded_row r rw), r)"
    using loadRow_written [OF assms] by (simp add: s_def E_def loaded_row_def)
  show ?thesis
    by (rule loadBlock_loop_row_line [OF nl cl ne 1 2 3 4 5 lr])
qed

lemma writeRows_Nil: "writeRows t [] = []"
  by (simp add: writeRows_def)

lemma writeRows_Cons:
  "rows t r = Some rw \<Longrightarrow>
   writeRows t ((r, cs) # rs) = (TAB # r @ TAB # '':: '' @ writeCols rw cs) @ NL # writeRows t rs"
  by (simp add: writeRows_def)

lemma loadBlock_loop_written_rows:
  assumes "clean_block t"
    and "distinct (map fst rs)"
    and "\<forall>(r, cs) \<in> set rs. \<exists>rw. rows t r = Some rw \<and> set cs = dom (cols rw)"
    and "\<forall>(r, cs) \<in> set rs. rows cfg r = None"
  shows "loadBlock_loop (length rs + n) sys cfg fnm prev (writeRows t rs @ rest)
           = loadBlock_loop n sys
               (CfgBlock (name cfg) (fname cfg)
                  (\<lambda>k. if k \<in> fst ` set rs then map_option (loaded_row k) (rows t k) else rows cfg k)
                  (tbls cfg))
               fnm (last (prev # map fst rs)) rest"
  using assms(2-4)
proof (induction rs arbitrary: cfg prev)
  case Nil
  show ?case by (simp add: writeRows_Nil)
next
  case (Cons rc rs)
  obtain r cs where rc: "rc = (r, cs)" by (cases rc)
  from Cons.prems(2) rc obtain rw where rw: "rows t r = Some rw" "set cs = dom (cols rw)" by auto
  with assms(1) have ok: "row_name_ok r" "clean_row rw" by (auto simp: clean_block_def)
  have fresh: "rows cfg r = None" using Cons.prems(3) rc by auto
  define cfg1 where "cfg1 = setRow cfg r (loaded_row r rw)"
  have step: "loadBlock_loop (Suc (length rs + n)) sys cfg fnm prev
                ((TAB # r @ TAB # '':: '' @ writeCols rw cs) @ NL # (writeRows t rs @ rest))
              = loadBlock_loop (length rs + n) sys cfg1 fnm r (writeRows t rs @ rest)"
    unfolding cfg1_def by (rule loadBlock_loop_written_row [OF ok rw(2) fresh])
  have nr: "r \<notin> fst ` set rs" using Cons.prems(1) rc by auto
  have "rows cfg1 r' = None" if "(r', cs') \<in> set rs" for r' cs'
  proof -
    from that have "r' \<in> fst ` set rs" by force
    with nr have "r' \<noteq> r" by auto
    moreover from that Cons.prems(3) have "rows cfg r' = None" by auto
    ultimately show ?thesis by (simp add: cfg1_def setRow_def)
  qed
  then have "\<forall>(r', cs') \<in> set rs. rows cfg1 r' = None" by auto
  with Cons.prems(1,2)
  have ih: "loadBlock_loop (length rs + n) sys cfg1 fnm r (writeRows t rs @ rest)
           = loadBlock_loop n sys
               (CfgBlock (name cfg1) (fname cfg1)
                  (\<lambda>k. if k \<in> fst ` set rs then map_option (loaded_row k) (rows t k) else rows cfg1 k)
                  (tbls cfg1))
               fnm (last (r # map fst rs)) rest"
    by (intro Cons.IH) auto
  have "(\<lambda>k. if k \<in> fst ` set rs then map_option (loaded_row k) (rows t k) else rows cfg1 k)
        = (\<lambda>k. if k \<in> fst ` set (rc # rs) then map_option (loaded_row k) (rows t k) else rows cfg k)"
    using nr rw(1) by (auto simp: cfg1_def setRow_def rc)
  moreover have "name cfg1 = name cfg" "fname cfg1 = fname cfg" "tbls cfg1 = tbls cfg"
    by (simp_all add: cfg1_def setRow_def)
  ultimately show ?case
    using step ih by (simp add: rc writeRows_Cons [OF rw(1)])
qed

subsection \<open>Blocks and files\<close>

lemma length_writeRows:
  assumes "\<forall>(r, cs) \<in> set rs. rows t r \<noteq> None"
  shows "length rs \<le> length (writeRows t rs)"
  using assms
proof (induction rs)
  case Nil
  show ?case by simp
next
  case (Cons rc rs)
  obtain r cs where rc: "rc = (r, cs)" by (cases rc)
  with Cons.prems obtain rw where "rows t r = Some rw" by auto
  with Cons rc show ?case by (simp add: writeRows_Cons)
qed

lemma written_block_body:
  assumes "clean_block t" "valid_rows_order t rs"
  shows "loadBlock_loop (length rs + 3 + j) sys (CfgBlock b fnm Map.empty Map.empty) fnm []
           (''{'' @ NL # writeRows t rs @ NL # ''}'' @ NL # rest)
         = Ok (loaded_block fnm b t, rest)"
proof -
  have d: "distinct (map fst rs)" and dom: "fst ` set rs = dom (rows t)"
    and ex: "\<forall>(r, cs) \<in> set rs. \<exists>rw. rows t r = Some rw \<and> set cs = dom (cols rw)"
    using assms(2) by (auto simp: valid_rows_order_def valid_cols_order_def split: option.splits)
  let ?cfg0 = "CfgBlock b fnm Map.empty Map.empty"
  have 1: "loadBlock_loop (Suc (length rs + (2 + j))) sys ?cfg0 fnm []
             (''{'' @ NL # (writeRows t rs @ NL # ''}'' @ NL # rest))
           = loadBlock_loop (length rs + (2 + j)) sys ?cfg0 fnm [] (writeRows t rs @ NL # ''}'' @ NL # rest)"
    by (rule brace_line_skipped(1) [where x = "[]"])
       (simp_all add: cleanLine_id trimmed_def blanks_def)
  have fr: "\<forall>(r, cs) \<in> set rs. rows ?cfg0 r = None" by simp
  have 2: "loadBlock_loop (length rs + (2 + j)) sys ?cfg0 fnm [] (writeRows t rs @ NL # ''}'' @ NL # rest)
             = loadBlock_loop (2 + j) sys
                 (CfgBlock b fnm (\<lambda>k. if k \<in> fst ` set rs then map_option (loaded_row k) (rows t k) else None)
                    Map.empty) fnm (last ([] # map fst rs)) (NL # ''}'' @ NL # rest)"
    using loadBlock_loop_written_rows [OF assms(1) d ex fr, of "2 + j" sys fnm "[]" "NL # ''}'' @ NL # rest"]
    by (simp cong: if_cong)
  have rows_eq: "(\<lambda>k. if k \<in> fst ` set rs then map_option (loaded_row k) (rows t k) else None)
                  = (\<lambda>r. map_option (loaded_row r) (rows t r))"
    using dom by (auto simp: domIff)
  have 3: "loadBlock_loop (Suc (Suc j)) sys c fnm p ([] @ NL # ''}'' @ NL # rest)
             = loadBlock_loop (Suc j) sys c fnm p (''}'' @ NL # rest)" for c p
    by (rule blank_line_skipped(1)) (simp_all add: cleanLine_id trimmed_def)
  have 4: "loadBlock_loop (Suc j) sys c fnm p (''}'' @ NL # rest) = Ok (c, rest)" for c p
    by (rule block_end_returns(1) [where x = "[]"]) (simp_all add: cleanLine_id trimmed_def blanks_def)
  show ?thesis
    using 1 2 3 4 by (simp add: rows_eq loaded_block_def numeral_3_eq_3)
qed

lemma writeTbls_Nil: "writeTbls T [] = []"
  by (simp add: writeTbls_def)

lemma writeTbls_Cons:
  "tbls T b = Some t \<Longrightarrow>
   writeTbls T ((b, rs) # ord) =
     NL # (''%block '' @ b) @ NL # ''{'' @ NL # writeRows t rs @ NL # ''}'' @ NL # writeTbls T ord"
  by (simp add: writeTbls_def)

lemma written_tbls:
  assumes "clean_tree T"
    and "distinct (map fst ord)"
    and "\<forall>(b, rs) \<in> set ord. case tbls T b of None \<Rightarrow> False | Some t \<Rightarrow> valid_rows_order t rs"
    and "length (writeTbls T ord) < m"
  shows "loadCfgFile_loop m sys cfg fnm prev (writeTbls T ord)
         = Ok (CfgBlock (name cfg) (fname cfg) (rows cfg)
                 (\<lambda>k. if k \<in> fst ` set ord then map_option (loaded_block fnm k) (tbls T k)
                      else tbls cfg k))"
  using assms(2-4)
proof (induction ord arbitrary: cfg m)
  case Nil
  then obtain m' where "m = Suc m'" by (cases m) auto
  then show ?case by (simp add: writeTbls_Nil end_of_file)
next
  case (Cons bc ord)
  obtain b rs where bc: "bc = (b, rs)" by (cases bc)
  with Cons.prems(2) obtain t where t: "tbls T b = Some t" "valid_rows_order t rs"
    by (auto split: option.splits)
  with assms(1) have ok: "block_name_ok b" "clean_block t" by (auto simp: clean_tree_def)
  have "\<forall>(r, cs) \<in> set rs. rows t r \<noteq> None"
    using t(2) by (auto simp: valid_rows_order_def split: option.splits)
  then have lr: "length rs \<le> length (writeRows t rs)" by (rule length_writeRows)
  let ?W = "writeTbls T ord"
  have len: "length (writeTbls T (bc # ord)) = 14 + length b + length (writeRows t rs) + length ?W"
    by (simp add: bc writeTbls_Cons [OF t(1)])
  define j where "j = m - (length rs + 5)"
  have m: "m = Suc (Suc (length rs + 3 + j))" and j: "length ?W < length rs + 3 + j"
    using Cons.prems(3) lr len by (simp_all add: j_def)
  let ?m' = "length rs + 3 + j"
  let ?child = "loaded_block fnm b t"
  let ?body = "''{'' @ NL # writeRows t rs @ NL # ''}'' @ NL # ?W"
  have 1: "loadCfgFile_loop (Suc (Suc ?m')) sys cfg fnm prev ([] @ NL # (''%block '' @ b) @ NL # ?body)
            = loadCfgFile_loop (Suc ?m') sys cfg fnm prev ((''%block '' @ b) @ NL # ?body)"
    by (rule blank_line_skipped(2)) (simp_all add: cleanLine_id trimmed_def)
  have 2: "loadCfgFile_loop (Suc ?m') sys cfg fnm prev ((''%block '' @ b) @ NL # ?body)
            = loadCfgFile_loop ?m' sys (setTbl cfg b ?child) fnm prev ?W"
    by (simp only: header_line_opens_block(1) [OF ok(1)] written_block_body [OF ok(2) t(2)]
        result.case prod.case)
  have nb: "b \<notin> fst ` set ord" using Cons.prems(1) bc by auto
  have 3: "loadCfgFile_loop ?m' sys (setTbl cfg b ?child) fnm prev ?W
            = Ok (CfgBlock (name (setTbl cfg b ?child)) (fname (setTbl cfg b ?child))
                 (rows (setTbl cfg b ?child))
                 (\<lambda>k. if k \<in> fst ` set ord then map_option (loaded_block fnm k) (tbls T k)
                      else tbls (setTbl cfg b ?child) k))"
    using Cons.prems(1,2) j by (intro Cons.IH) auto
  have "(\<lambda>k. if k \<in> fst ` set ord then map_option (loaded_block fnm k) (tbls T k)
                      else tbls (setTbl cfg b ?child) k)
        = (\<lambda>k. if k \<in> fst ` set (bc # ord) then map_option (loaded_block fnm k) (tbls T k)
                      else tbls cfg k)"
    using nb t(1) by (auto simp: setTbl_def bc)
  then show ?case
    using 1 2 3 by (simp add: m bc writeTbls_Cons [OF t(1)] setTbl_def)
qed

lemma EditEntry_clean:
  assumes "clean_tree T" "block_name_ok t" "row_name_ok r" "col_name_ok c" "value_ok v"
  shows "clean_tree (EditEntry T t r c v)"
proof -
  define tbl where "tbl = (case tbls T t of Some x \<Rightarrow> x | None \<Rightarrow> CfgBlock (name T) [] Map.empty Map.empty)"
  define row where "row = (case rows tbl r of Some x \<Rightarrow> x | None \<Rightarrow> \<lparr>row_name = r, cols = Map.empty\<rparr>)"
  have cb: "clean_block tbl"
    using assms(1) by (auto simp: tbl_def clean_tree_def clean_block_def split: option.splits)
  then have cr: "clean_row row"
    by (auto simp: row_def clean_block_def clean_row_def split: option.splits)
  have cr': "clean_row (row\<lparr>cols := (cols row)(c \<mapsto> v)\<rparr>)"
    using cr assms(4,5) by (auto simp: clean_row_def)
  have cb': "clean_block (CfgBlock (name tbl) (fname tbl) ((rows tbl)(r \<mapsto> row\<lparr>cols := (cols row)(c \<mapsto> v)\<rparr>)) (tbls tbl))"
    using cb cr' assms(3) by (auto simp: clean_block_def)
  have "EditEntry T t r c v = CfgBlock (name T) (fname T) (rows T)
          ((tbls T)(t \<mapsto> CfgBlock (name tbl) (fname tbl) ((rows tbl)(r \<mapsto> row\<lparr>cols := (cols row)(c \<mapsto> v)\<rparr>)) (tbls tbl)))"
    by (simp add: EditEntry_def tbl_def row_def Let_def)
  then show ?thesis
    using assms(1,2) cb' by (auto simp: clean_tree_def)
qed

lemma apply_edits_heap:
  assumes "p < length (heap w)"
  shows "heap (apply_edits w p es) ! p = foldl (\<lambda>T (t, r, c, v). EditEntry T t r c v) (heap w ! p) es
         \<and> length (heap (apply_edits w p es)) = length (heap w)
         \<and> cfgs (apply_edits w p es) = cfgs w"
  using assms
proof (induction es arbitrary: w)
  case Nil
  show ?case by (simp add: apply_edits_def)
next
  case (Cons e es)
  obtain t r c v where e: "e = (t, r, c, v)" by (cases e)
  have "apply_edits w p (e # es) = apply_edits (EditEntry_at w p t r c v) p es"
    by (simp add: apply_edits_def e)
  moreover have "p < length (heap (EditEntry_at w p t r c v))"
    using Cons.prems by (simp add: EditEntry_at_def)
  ultimately show ?case
    using Cons.IH [of "EditEntry_at w p t r c v"] Cons.prems
    by (simp add: EditEntry_at_def e)
qed

lemma edits_clean:
  assumes "clean_tree T" "edits_ok es"
  shows "clean_tree (foldl (\<lambda>T (t, r, c, v). EditEntry T t r c v) T es)"
  using assms
proof (induction es arbitrary: T)
  case Nil
  then show ?case by simp
next
  case (Cons e es)
  obtain t r c v where e: "e = (t, r, c, v)" by (cases e)
  with Cons.prems have "clean_tree (EditEntry T t r c v)" "edits_ok es"
    by (auto simp: edits_ok_def intro: EditEntry_clean)
  with Cons.IH show ?case by (simp add: e)
qed

lemma loadCfgFile_written:
  assumes "clean_tree T" "valid_order T ord" "length (writeTbls T ord) < n"
  shows "loadCfgFile n sys (CfgBlock nm f Map.empty Map.empty) f (writeTbls T ord)
         = Ok (CfgBlock nm f Map.empty (\<lambda>k. map_option (loaded_block f k) (tbls T k)))"
proof -
  have d: "distinct (map fst ord)" and dom: "fst ` set ord = dom (tbls T)"
    and ex: "\<forall>(b, rs) \<in> set ord. case tbls T b of None \<Rightarrow> False | Some t \<Rightarrow> valid_rows_order t rs"
    using assms(2) by (auto simp: valid_order_def)
  have "(\<lambda>k. if k \<in> fst ` set ord then map_option (loaded_block f k) (tbls T k) else None)
        = (\<lambda>k. map_option (loaded_block f k) (tbls T k))"
    using dom by (auto simp: domIff)
  then show ?thesis
    using written_tbls [OF assms(1) d ex assms(3), of sys "CfgBlock nm f Map.empty Map.empty" f "[]"]
    by (simp add: loadCfgFile_def cong: if_cong)
qed

lemma loaded_content:
  assumes "tbls T' = (\<lambda>k. map_option (loaded_block f k) (tbls T k))"
  shows "GetBlocks T' = GetBlocks T"
    and "GetRows T' b = GetRows T b"
    and "GetCols T' b r = GetCols T b r"
    and "Str T' b r c d = Str T b r c d"
  by (auto simp: assms GetBlocks_def GetRows_def GetCols_def Str_def loaded_block_def loaded_row_def
      domIff split: option.splits)

text \<open>
  C1, as the claim states it, for every tree built by \<open>NewCfgMem\<close> and \<open>EditEntry\<close>. It
  fails for a value with a semicolon in it: the tree built holds \<open>x;y\<close> under block
  \<open>b\<close>, row \<open>r\<close>, column \<open>c\<close>; the file written from it is loaded under a fresh
  name, and the tree loaded holds \<open>x\<close> there.
\<close>

lemma semicolon_tree:
  "heap semicolon_world ! 0 =
     CfgBlock ''cfg'' [] Map.empty
       [''b'' \<mapsto> CfgBlock ''cfg'' [] [''r'' \<mapsto> \<lparr>row_name = ''r'', cols = [''c'' \<mapsto> ''x;y'']\<rparr>] Map.empty]"
  by (simp add: semicolon_world_def apply_edits_def one_cfg_world_def EditEntry_at_def EditEntry_def
      empty_cfg_def)



lemma sample_tree:
  "heap sample_world ! 0 =
     CfgBlock ''cfg'' [] Map.empty
       [''b'' \<mapsto> CfgBlock ''cfg'' []
                  [''r'' \<mapsto> \<lparr>row_name = ''r'', cols = [''c'' \<mapsto> ''v'', ''d'' \<mapsto> ''x=y+=z'']\<rparr>] Map.empty,
        ''b2'' \<mapsto> CfgBlock ''cfg'' []
                   [''host:8080'' \<mapsto> \<lparr>row_name = ''host:8080'', cols = [''k'' \<mapsto> []]\<rparr>,
                    ''%x a=b'' \<mapsto> \<lparr>row_name = ''%x a=b'', cols = [''j'' \<mapsto> '':'']\<rparr>] Map.empty]"
  by (simp add: sample_world_def sample_edits_def apply_edits_def one_cfg_world_def EditEntry_at_def
      EditEntry_def empty_cfg_def)


end
